theory Spec2Isabelle
  imports Complex_Main "HOL-Library.Multiset" "HOL-Library.Sublist"
begin

section \<open>Characters and strings of the host language\<close>

text \<open>
  The library is TypeScript; its strings are sequences of code units. The model uses
  \<^typ>\<open>string\<close>, whose characters are the 256 code units of the Latin-1 range. The character
  classes below are the ECMAScript ones restricted to that range:
  \<^item> \<open>\s\<close> and \<open>String.prototype.trim\<close> agree on white space and line terminators:
    TAB, LF, VT, FF, CR, SPACE and NBSP;
  \<^item> \<open>\w\<close> is \<open>[A-Za-z0-9_]\<close>;
  \<^item> \<open>.\<close> (without the \<open>s\<close> flag) is every character but LF and CR;
  \<^item> \<open>toLowerCase\<close> maps \<open>A-Z\<close> and the upper-case letters \<open>0xC0-0xDE\<close> (but not the
    multiplication sign \<open>0xD7\<close>) to the character 32 places further.
\<close>

definition isSpace :: "char \<Rightarrow> bool" where
  "isSpace c = (let n = (of_char c :: nat) in n = 9 \<or> n = 10 \<or> n = 11 \<or> n = 12 \<or> n = 13 \<or> n = 32 \<or> n = 160)"

definition isWordChar :: "char \<Rightarrow> bool" where
  "isWordChar c = (let n = (of_char c :: nat) in
     (48 \<le> n \<and> n \<le> 57) \<or> (65 \<le> n \<and> n \<le> 90) \<or> n = 95 \<or> (97 \<le> n \<and> n \<le> 122))"

definition isLineTerminator :: "char \<Rightarrow> bool" where
  "isLineTerminator c = (let n = (of_char c :: nat) in n = 10 \<or> n = 13)"

definition toLowerChar :: "char \<Rightarrow> char" where
  "toLowerChar c = (let n = (of_char c :: nat) in
     if (65 \<le> n \<and> n \<le> 90) \<or> (192 \<le> n \<and> n \<le> 222 \<and> n \<noteq> 215) then char_of (n + 32) else c)"

definition toLowerCase :: "string \<Rightarrow> string" where
  "toLowerCase s = map toLowerChar s"

text \<open>\<open>s.trim()\<close>\<close>

definition trim :: "string \<Rightarrow> string" where
  "trim s = rev (dropWhile isSpace (rev (dropWhile isSpace s)))"

text \<open>
  \<open>s.split(/\s+/)\<close>: the pieces between maximal runs of white space. A separator at the
  very start or end leaves an empty piece there, and the empty string splits into one empty
  piece, as in ECMAScript.
\<close>

function splitSpaces :: "string \<Rightarrow> string list" where
  "splitSpaces s =
     (case dropWhile (\<lambda>c. \<not> isSpace c) s of
        [] \<Rightarrow> [s]
      | r # rs \<Rightarrow> takeWhile (\<lambda>c. \<not> isSpace c) s # splitSpaces (dropWhile isSpace rs))"
  by pat_completeness auto
termination
proof (relation "measure length", goal_cases)
  case 1
  show ?case by simp
next
  case (2 s r rs)
  have "length (dropWhile isSpace rs) \<le> length rs"
    by (rule length_dropWhile_le)
  moreover have "length (r # rs) \<le> length s"
    using length_dropWhile_le [of "\<lambda>c. \<not> isSpace c" s] 2 by simp
  ultimately show ?case by simp
qed

declare splitSpaces.simps [simp del]

text \<open>\<open>words.join(' ')\<close>\<close>

fun joinSpace :: "string list \<Rightarrow> string" where
  "joinSpace [] = []"
| "joinSpace [w] = w"
| "joinSpace (w # v # ws) = w @ '' '' @ joinSpace (v # ws)"

section \<open>Text Normalizer and Transcript Combiner (utils.ts)\<close>

text \<open>\<open>w.toLowerCase().replace(/[^\w]/g, '')\<close>: the key two neighbouring words are compared by.\<close>

definition wordKey :: "string \<Rightarrow> string" where
  "wordKey w = filter isWordChar (toLowerCase w)"

text \<open>
  The loop of \<open>removeDuplicateWords\<close>. The first argument is \<open>words[i - 1]\<close>, absent at
  \<open>i = 0\<close>, where \<open>previousWord\<close> is \<open>null\<close> and differs from every string.
\<close>

fun filterWords :: "string option \<Rightarrow> string list \<Rightarrow> string list" where
  "filterWords prev [] = []"
| "filterWords prev (w # ws) =
     (if Some (wordKey w) \<noteq> map_option wordKey prev
      then w # filterWords (Some w) ws
      else filterWords (Some w) ws)"

definition removeDuplicateWords :: "string \<Rightarrow> string" where
  "removeDuplicateWords transcript =
     (if transcript = [] \<or> trim transcript = [] then []
      else joinSpace (filterWords None (splitSpaces (trim transcript))))"

text \<open>\<open>concatTranscripts(...transcriptParts)\<close>\<close>

definition concatTranscripts :: "string list \<Rightarrow> string" where
  "concatTranscripts transcriptParts =
     removeDuplicateWords (trim (joinSpace (map trim transcriptParts)))"

text \<open>
  The white-space-delimited tokens of a string: what \<open>removeDuplicateWords\<close> iterates over
  (none for an empty or blank string).
\<close>

definition tokensOf :: "string \<Rightarrow> string list" where
  "tokensOf s = (if trim s = [] then [] else splitSpaces (trim s))"

definition isToken :: "string \<Rightarrow> bool" where
  "isToken w = (w \<noteq> [] \<and> (\<forall>c \<in> set w. \<not> isSpace c))"

section \<open>Similarity Scorer (utils.ts)\<close>

text \<open>\<open>s.replace(/\s+/g, '')\<close>: every white-space character is removed.\<close>

definition stripSpaces :: "string \<Rightarrow> string" where
  "stripSpaces s = filter (\<lambda>c. \<not> isSpace c) s"

text \<open>
  \<open>s.substring(i, j)\<close> for indices that are natural numbers: both are clamped to the length
  and swapped when out of order.
\<close>

definition substring :: "string \<Rightarrow> nat \<Rightarrow> nat \<Rightarrow> string" where
  "substring s i j =
     (let a = min i (length s); b = min j (length s)
      in take (max a b - min a b) (drop (min a b) s))"

text \<open>
  The \<open>Map<string, number>\<close> of bigram counts is a partial map. One round of the first loop:
  \<open>firstBigrams.set(bigram, firstBigrams.has(bigram) ? firstBigrams.get(bigram) + 1 : 1)\<close>.
\<close>

definition countBigram :: "string \<Rightarrow> (string \<rightharpoonup> nat) \<Rightarrow> (string \<rightharpoonup> nat)" where
  "countBigram bigram firstBigrams =
     firstBigrams(bigram \<mapsto> (case firstBigrams bigram of Some c \<Rightarrow> c + 1 | None \<Rightarrow> 1))"

definition firstBigramsOf :: "string \<Rightarrow> (string \<rightharpoonup> nat)" where
  "firstBigramsOf first =
     fold (\<lambda>i. countBigram (substring first i (i + 2))) [0..<length first - 1] Map.empty"

text \<open>
  One round of the second loop, on the pair of the map and \<open>intersectionSize\<close>: a bigram whose
  remaining count is positive is consumed and counted.
\<close>

definition consumeBigram ::
  "string \<Rightarrow> (string \<rightharpoonup> nat) \<times> nat \<Rightarrow> (string \<rightharpoonup> nat) \<times> nat" where
  "consumeBigram bigram st =
     (let firstBigrams = fst st; intersectionSize = snd st;
          count = (case firstBigrams bigram of Some c \<Rightarrow> c | None \<Rightarrow> 0)
      in if count > 0 then (firstBigrams(bigram \<mapsto> count - 1), intersectionSize + 1)
         else (firstBigrams, intersectionSize))"

definition intersectionSizeOf :: "string \<Rightarrow> string \<Rightarrow> nat" where
  "intersectionSizeOf first second =
     snd (fold (\<lambda>i. consumeBigram (substring second i (i + 2))) [0..<length second - 1]
            (firstBigramsOf first, 0))"

text \<open>
  The result is a JavaScript number. The model returns the quotient as a rational: the
  constants 1 and 0 are exact, and the last line divides two small integers, which the
  double-precision division of the source rounds to the nearest double.
\<close>

definition compareTwoStringsUsingDiceCoefficient :: "string \<Rightarrow> string \<Rightarrow> rat" where
  "compareTwoStringsUsingDiceCoefficient first0 second0 =
     (let first = stripSpaces first0; second = stripSpaces second0
      in if first = second then 1
         else if length first < 2 \<or> length second < 2 then 0
         else (2 * of_nat (intersectionSizeOf first second))
                / of_nat (length first + length second - 2))"

text \<open>The bigrams of a string, in order: its contiguous two-character substrings.\<close>

fun bigrams :: "string \<Rightarrow> string list" where
  "bigrams (a # b # s) = [a, b] # bigrams (b # s)"
| "bigrams s = []"

text \<open>The count a bigram has in the map: absent keys count as zero.\<close>

definition countOf :: "(string \<rightharpoonup> nat) \<Rightarrow> string \<Rightarrow> nat" where
  "countOf m b = (case m b of Some c \<Rightarrow> c | None \<Rightarrow> 0)"

section \<open>Result Parser (utils.ts)\<close>

text \<open>
  A \<open>SpeechRecognitionResult\<close> is read through \<open>isFinal\<close> and through the transcript of its first
  alternative, \<open>result[0].transcript\<close>, which the Web Speech API always provides. A
  \<open>SpeechRecognitionEvent\<close> carries the result list and \<open>resultIndex\<close>.
\<close>

record SpeechRecognitionResult =
  isFinal :: bool
  transcript :: string

record SpeechRecognitionEvent =
  results :: "SpeechRecognitionResult list"
  resultIndex :: nat

text \<open>
  One round of the loop of \<open>parseResultsToTranscript\<close>, on the pair
  \<open>(interimTranscript, finalTranscript)\<close>.
\<close>

definition parseResultStep :: "SpeechRecognitionResult \<Rightarrow> string \<times> string \<Rightarrow> string \<times> string" where
  "parseResultStep result acc =
     (let t = removeDuplicateWords (transcript result)
      in if isFinal result then (fst acc, snd acc @ t) else (fst acc @ t, snd acc))"

text \<open>The loop starts at \<open>resultIndex\<close>; the pair returned is (interim, final).\<close>

definition parseResultsToTranscript :: "SpeechRecognitionResult list \<Rightarrow> nat \<Rightarrow> string \<times> string" where
  "parseResultsToTranscript rs idx =
     (let acc = fold parseResultStep (drop idx rs) ([], [])
      in (removeDuplicateWords (fst acc), removeDuplicateWords (snd acc)))"

section \<open>Recognition manager (recognition-manager.ts)\<close>

text \<open>
  The recognizer object the manager holds: the two properties the manager reads and writes.
\<close>

record recognizer =
  continuous_flag :: bool
  lang :: string

text \<open>
  \<open>this.onStopListening\<close> is either the initial no-op or the \<open>resolve\<close> function of the
  promise a stop or abort waits on.
\<close>

datatype stopResolver = NoOp | ResolvePendingStop

record RecognitionManager =
  recognition :: "recognizer option"
  pauseAfterDisconnect :: bool
  interimTranscript :: string
  finalTranscriptState :: string
  listening :: bool
  isMicrophoneAvailable :: bool
  onStopListening :: stopResolver
  previousResultWasFinalOnly :: bool

text \<open>The fields as the class initialises them, for a given recognizer (or none).\<close>

definition newManager :: "recognizer option \<Rightarrow> RecognitionManager" where
  "newManager r =
     \<lparr>recognition = r, pauseAfterDisconnect = False, interimTranscript = [],
      finalTranscriptState = [], listening = False, isMicrophoneAvailable = True,
      onStopListening = NoOp, previousResultWasFinalOnly = False\<rparr>"

text \<open>
  What a method does to the outside is a list of effects, in the order they happen: a
  notification fanned out to the subscribers (one entry per \<open>emit...\<close> call, delivered to every
  subscriber that registered the callback), or a call of a primitive of the recognizer.
  Subscribers run outside the manager; what their callbacks do in turn is not part of a
  method's result.
\<close>

datatype notification =
    ListeningChange bool
  | MicrophoneAvailabilityChange bool
  | TranscriptChange string string
  | ClearTranscript

datatype effect = Notify notification | RecognizerStart | RecognizerStop | RecognizerAbort

definition emitListeningChange :: "bool \<Rightarrow> RecognitionManager \<Rightarrow> RecognitionManager \<times> effect list" where
  "emitListeningChange l s = (s\<lparr>listening := l\<rparr>, [Notify (ListeningChange l)])"

definition emitMicrophoneAvailabilityChange ::
  "bool \<Rightarrow> RecognitionManager \<Rightarrow> RecognitionManager \<times> effect list" where
  "emitMicrophoneAvailabilityChange a s =
     (s\<lparr>isMicrophoneAvailable := a\<rparr>, [Notify (MicrophoneAvailabilityChange a)])"

definition emitTranscriptChange :: "string \<Rightarrow> string \<Rightarrow> effect list" where
  "emitTranscriptChange interim final = [Notify (TranscriptChange interim final)]"

definition emitClearTranscript :: "effect list" where
  "emitClearTranscript = [Notify ClearTranscript]"

definition updateFinalTranscript :: "string \<Rightarrow> RecognitionManager \<Rightarrow> RecognitionManager" where
  "updateFinalTranscript newFinalTranscript s =
     s\<lparr>finalTranscriptState := concatTranscripts [finalTranscriptState s, newFinalTranscript]\<rparr>"

text \<open>\<open>updateTranscript\<close>, the handler of the recognizer's result event.\<close>

definition updateTranscript ::
  "SpeechRecognitionEvent \<Rightarrow> RecognitionManager \<Rightarrow> RecognitionManager \<times> effect list" where
  "updateTranscript ev s =
     (let parsed = parseResultsToTranscript (results ev) (resultIndex ev);
          s1 = s\<lparr>interimTranscript := fst parsed\<rparr>;
          s2 = (if snd parsed \<noteq> [] then updateFinalTranscript (snd parsed) s1 else s1);
          isDuplicateResult =
            (previousResultWasFinalOnly s2 \<and> length (results ev) = 1
             \<and> isFinal (results ev ! 0) \<and> interimTranscript s2 = []);
          s3 = s2\<lparr>previousResultWasFinalOnly :=
                 (length (results ev) = 1 \<and> isFinal (results ev ! 0) \<and> interimTranscript s2 = [])\<rparr>
      in if \<not> isDuplicateResult
         then (s3, emitTranscriptChange (interimTranscript s3) (finalTranscriptState s3))
         else (s3, []))"

definition resetTranscriptState :: "RecognitionManager \<Rightarrow> RecognitionManager" where
  "resetTranscriptState s = s\<lparr>interimTranscript := [], finalTranscriptState := []\<rparr>"

text \<open>The private \<open>stop\<close> and \<open>abort\<close>.\<close>

definition stop :: "RecognitionManager \<Rightarrow> RecognitionManager \<times> effect list" where
  "stop s = (if recognition s \<noteq> None \<and> listening s
             then (s\<lparr>listening := False\<rparr>, [RecognizerStop]) else (s, []))"

definition abort :: "RecognitionManager \<Rightarrow> RecognitionManager \<times> effect list" where
  "abort s = (if recognition s \<noteq> None \<and> listening s
              then (s\<lparr>listening := False\<rparr>, [RecognizerAbort]) else (s, []))"

datatype disconnectType = ABORT | RESET | STOP

definition disconnect :: "disconnectType \<Rightarrow> RecognitionManager \<Rightarrow> RecognitionManager \<times> effect list" where
  "disconnect disconnectType s =
     (if recognition s \<noteq> None \<and> listening s
      then (case disconnectType of
              ABORT \<Rightarrow> abort (s\<lparr>pauseAfterDisconnect := True\<rparr>)
            | RESET \<Rightarrow> abort (s\<lparr>pauseAfterDisconnect := False\<rparr>)
            | STOP \<Rightarrow> stop (s\<lparr>pauseAfterDisconnect := True\<rparr>))
      else (s, []))"

text \<open>
  How the promise of \<open>stopListening\<close> or \<open>abortListening\<close> settles: at once, or by the race
  between the end event of the recognizer (which calls \<open>onStopListening\<close>) and a timer, whose
  delay in milliseconds is recorded.
\<close>

datatype completion = ResolvedAtOnce | AwaitsEndOrTimeout nat

definition stopListening :: "RecognitionManager \<Rightarrow> RecognitionManager \<times> effect list \<times> completion" where
  "stopListening s =
     (let (s1, e1) = disconnect STOP s;
          (s2, e2) = emitListeningChange False s1
      in if listening s2
         then (s2\<lparr>onStopListening := ResolvePendingStop\<rparr>, e1 @ e2, AwaitsEndOrTimeout 100)
         else (s2, e1 @ e2, ResolvedAtOnce))"

definition abortListening :: "RecognitionManager \<Rightarrow> RecognitionManager \<times> effect list \<times> completion" where
  "abortListening s =
     (let (s1, e1) = disconnect ABORT s;
          (s2, e2) = emitListeningChange False s1
      in if listening s2
         then (s2\<lparr>onStopListening := ResolvePendingStop\<rparr>, e1 @ e2, AwaitsEndOrTimeout 100)
         else (s2, e1 @ e2, ResolvedAtOnce))"

text \<open>
  The \<open>start\<close> primitive of the recognizer either returns or throws; what it does is an input
  of the model. The source tells a \<open>DOMException\<close> from every other exception.
\<close>

datatype startOutcome = Started | ThrowsDOMException | ThrowsOther

datatype exception = DOMException | OtherException

text \<open>The private \<open>start\<close>: \<open>this.listening = true\<close> is not reached when the primitive throws.\<close>

definition start ::
  "startOutcome \<Rightarrow> RecognitionManager \<Rightarrow> (exception + RecognitionManager) \<times> effect list" where
  "start outcome s =
     (if recognition s \<noteq> None \<and> \<not> listening s
      then (case outcome of
              Started \<Rightarrow> (Inr (s\<lparr>listening := True\<rparr>), [RecognizerStart])
            | ThrowsDOMException \<Rightarrow> (Inl DOMException, [RecognizerStart])
            | ThrowsOther \<Rightarrow> (Inl OtherException, [RecognizerStart]))
      else (Inr s, []))"

text \<open>
  The options of \<open>startListening\<close>: \<open>continuous\<close> defaults to \<open>false\<close>, \<open>language\<close> may be absent.
\<close>

record StartListeningOptions =
  continuous_opt :: "bool option"
  language :: "string option"

text \<open>
  \<open>startListening\<close>. The awaited calls run to completion in sequence (the caller serialises
  its calls, and no recognizer event is handled in between).
\<close>

definition startListening ::
  "StartListeningOptions \<Rightarrow> startOutcome \<Rightarrow> RecognitionManager \<Rightarrow> RecognitionManager \<times> effect list" where
  "startListening opts outcome s =
     (case recognition s of
        None \<Rightarrow> (s, [])
      | Some r \<Rightarrow>
          (let continuous = (case continuous_opt opts of None \<Rightarrow> False | Some c \<Rightarrow> c);
               isContinuousChanged = (continuous \<noteq> continuous_flag r);
               isLanguageChanged =
                 (case language opts of None \<Rightarrow> False | Some l \<Rightarrow> l \<noteq> [] \<and> l \<noteq> lang r);
               (s1, e1) =
                 (if isContinuousChanged \<or> isLanguageChanged
                  then (let (s', e') =
                              (if listening s
                               then (let (t, e, c) = stopListening s in (t, e))
                               else (s, []));
                            r' = r\<lparr>continuous_flag := (if isContinuousChanged then continuous else continuous_flag r),
                                   lang := (case language opts of
                                            Some l \<Rightarrow> if isLanguageChanged then l else lang r
                                          | None \<Rightarrow> lang r)\<rparr>
                        in (s'\<lparr>recognition := Some r'\<rparr>, e'))
                  else (s, []))
           in if \<not> listening s1
              then (let (s2, e2) =
                          (if \<not> continuous_flag (the (recognition s1))
                           then (resetTranscriptState s1, emitClearTranscript)
                           else (s1, []))
                    in (case start outcome s2 of
                          (Inr s3, e3) \<Rightarrow>
                            (let (s4, e4) = emitListeningChange True s3 in (s4, e1 @ e2 @ e3 @ e4))
                        | (Inl DOMException, e3) \<Rightarrow> (s2, e1 @ e2 @ e3)
                        | (Inl OtherException, e3) \<Rightarrow>
                            (let (s4, e4) = emitMicrophoneAvailabilityChange False s2
                             in (s4, e1 @ e2 @ e3 @ e4))))
              else (s1, e1)))"

text \<open>
  A result batch that consists of a single final alternative and carries no interim text: the
  shape \<open>updateTranscript\<close> tests for.
\<close>

definition singleFinalOnly :: "SpeechRecognitionEvent \<Rightarrow> bool" where
  "singleFinalOnly ev =
     (length (results ev) = 1 \<and> isFinal (results ev ! 0)
      \<and> fst (parseResultsToTranscript (results ev) (resultIndex ev)) = [])"


section \<open>Regular expressions of the host language\<close>

text \<open>
  \<open>utils.ts\<close> builds its matchers from regular expressions: five literals drive the rewriting
  of a command, and the rewritten text is compiled with \<open>new RegExp(..., 'i')\<close>. The model of
  the ECMAScript matcher covers the fragment these use: literal characters and identity
  escapes, \<open>.\<close>, the class escapes \<open>\s \S \w \W \d \D\<close>, bracketed classes without ranges,
  capturing and non-capturing groups, alternation, the quantifiers \<open>*\<close>, \<open>+\<close>, \<open>?\<close> and
  their lazy forms, and the anchors \<open>^\<close> and \<open>$\<close>.
\<close>

abbreviation (input) bslash :: char where
  "bslash \<equiv> CHR 0x5C"

definition isDigit :: "char \<Rightarrow> bool" where
  "isDigit c = (let n = (of_char c :: nat) in 48 \<le> n \<and> n \<le> 57)"

datatype classItem = CChar char | CSpace | CNotSpace | CWord | CNotWord | CDigit | CNotDigit

datatype rx =
    Lit char
  | AnyChar
  | Cls bool "classItem list"
  | Bol
  | Eol
  | Seq "rx list"
  | Alt rx rx
  | Group nat rx
  | NonCap rx
  | Star bool rx
  | Plus bool rx
  | Opt bool rx

text \<open>
  \<open>Cls neg items\<close> is a class, negated when \<open>neg\<close> holds; the flag of a quantifier says
  whether it is greedy; \<open>Group i r\<close> is the \<open>i\<close>-th capturing group.

  With the flag \<open>i\<close> two characters are equal when their canonical forms are; in the Latin-1
  range these are the characters with the same lower-case form.
\<close>

definition charEq :: "bool \<Rightarrow> char \<Rightarrow> char \<Rightarrow> bool" where
  "charEq ignoreCase a c = (if ignoreCase then toLowerChar a = toLowerChar c else a = c)"

fun itemMatches :: "bool \<Rightarrow> classItem \<Rightarrow> char \<Rightarrow> bool" where
  "itemMatches ic (CChar a) c = charEq ic a c"
| "itemMatches ic CSpace c = isSpace c"
| "itemMatches ic CNotSpace c = (\<not> isSpace c)"
| "itemMatches ic CWord c = isWordChar c"
| "itemMatches ic CNotWord c = (\<not> isWordChar c)"
| "itemMatches ic CDigit c = isDigit c"
| "itemMatches ic CNotDigit c = (\<not> isDigit c)"

definition classMatches :: "bool \<Rightarrow> bool \<Rightarrow> classItem list \<Rightarrow> char \<Rightarrow> bool" where
  "classMatches ic neg items c = (list_ex (\<lambda>item. itemMatches ic item c) items \<noteq> neg)"

text \<open>
  The matcher backtracks. A state is the position in the input, the rest of the input from
  there and the captures made so far (latest first); matching an expression from a state
  gives the states it can end in, in the order the backtracking matcher tries them, so that
  the head of the list is the match ECMAScript reports. (ECMAScript also forgets, at each
  round of a quantifier, the captures made inside it in earlier rounds. The expressions
  compiled from string commands never repeat a group that captures more than once, so the
  model keeps them.)
\<close>

type_synonym mstate = "nat \<times> string \<times> (nat \<times> string) list"

definition stepChar :: "(char \<Rightarrow> bool) \<Rightarrow> mstate \<Rightarrow> mstate list" where
  "stepChar ok st =
     (case st of (pos, rest, caps) \<Rightarrow>
        (case rest of [] \<Rightarrow> [] | c # cs \<Rightarrow> if ok c then [(Suc pos, cs, caps)] else []))"

fun seqM :: "(mstate \<Rightarrow> mstate list) list \<Rightarrow> mstate \<Rightarrow> mstate list" where
  "seqM [] st = [st]"
| "seqM (m # ms) st = concat (map (seqM ms) (m st))"

text \<open>
  An iteration of a quantifier with minimum 0 that consumes nothing is rejected, as in
  ECMAScript; so each iteration consumes a character, and the number of characters left
  bounds the number of iterations exactly.
\<close>

definition progress :: "mstate \<Rightarrow> mstate \<Rightarrow> bool" where
  "progress st st' = (fst st < fst st')"

fun starM :: "bool \<Rightarrow> (mstate \<Rightarrow> mstate list) \<Rightarrow> nat \<Rightarrow> mstate \<Rightarrow> mstate list" where
  "starM greedy m 0 st = [st]"
| "starM greedy m (Suc n) st =
     (let more = concat (map (starM greedy m n) (filter (progress st) (m st)))
      in if greedy then more @ [st] else st # more)"

definition capture :: "nat \<Rightarrow> mstate \<Rightarrow> mstate \<Rightarrow> mstate" where
  "capture i st st' =
     (case st of (pos, rest, caps) \<Rightarrow>
        (case st' of (pos', rest', caps') \<Rightarrow>
           (pos', rest', (i, take (pos' - pos) rest) # caps')))"

primrec matches :: "bool \<Rightarrow> rx \<Rightarrow> mstate \<Rightarrow> mstate list" where
  "matches ic (Lit a) = stepChar (charEq ic a)"
| "matches ic AnyChar = stepChar (\<lambda>c. \<not> isLineTerminator c)"
| "matches ic (Cls neg items) = stepChar (classMatches ic neg items)"
| "matches ic Bol = (\<lambda>st. if fst st = 0 then [st] else [])"
| "matches ic Eol = (\<lambda>st. if fst (snd st) = [] then [st] else [])"
| "matches ic (Seq rs) = seqM (map (matches ic) rs)"
| "matches ic (Alt a b) = (\<lambda>st. matches ic a st @ matches ic b st)"
| "matches ic (Group i r) = (\<lambda>st. map (capture i st) (matches ic r st))"
| "matches ic (NonCap r) = matches ic r"
| "matches ic (Star greedy r) = (\<lambda>st. starM greedy (matches ic r) (length (fst (snd st))) st)"
| "matches ic (Plus greedy r) =
     (\<lambda>st. concat (map (\<lambda>st'. starM greedy (matches ic r) (length (fst (snd st'))) st')
                      (matches ic r st)))"
| "matches ic (Opt greedy r) =
     (\<lambda>st. let once = filter (progress st) (matches ic r st)
            in if greedy then once @ [st] else st # once)"

text \<open>
  One attempt at a position: the length of the match the matcher settles on, and its captures.
\<close>

definition execAt :: "bool \<Rightarrow> rx \<Rightarrow> nat \<Rightarrow> string \<Rightarrow> (nat \<times> (nat \<times> string) list) option" where
  "execAt ic r pos rest =
     (case matches ic r (pos, rest, []) of
        [] \<Rightarrow> None
      | st # _ \<Rightarrow> Some (fst st - pos, snd (snd st)))"

text \<open>The search for the leftmost match, from position \<open>pos\<close> on.\<close>

primrec searchFrom ::
  "bool \<Rightarrow> rx \<Rightarrow> nat \<Rightarrow> string \<Rightarrow> (nat \<times> nat \<times> (nat \<times> string) list) option" where
  "searchFrom ic r pos [] =
     (case execAt ic r pos [] of None \<Rightarrow> None | Some m \<Rightarrow> Some (pos, m))"
| "searchFrom ic r pos (c # cs) =
     (case execAt ic r pos (c # cs) of
        None \<Rightarrow> searchFrom ic r (Suc pos) cs
      | Some m \<Rightarrow> Some (pos, m))"


text \<open>The number of capturing groups of an expression.\<close>

primrec groupCount :: "rx \<Rightarrow> nat" where
  "groupCount (Lit a) = 0"
| "groupCount AnyChar = 0"
| "groupCount (Cls neg items) = 0"
| "groupCount Bol = 0"
| "groupCount Eol = 0"
| "groupCount (Seq rs) = sum_list (map groupCount rs)"
| "groupCount (Alt a b) = groupCount a + groupCount b"
| "groupCount (Group i r) = Suc (groupCount r)"
| "groupCount (NonCap r) = groupCount r"
| "groupCount (Star greedy r) = groupCount r"
| "groupCount (Plus greedy r) = groupCount r"
| "groupCount (Opt greedy r) = groupCount r"

text \<open>
  \<open>s.match(regex)\<close> without the flag \<open>g\<close>, reduced to what the library reads: \<open>None\<close> for
  \<open>null\<close>, else the captures \<open>match.slice(1)\<close>, where a group that took no part is
  \<open>undefined\<close>.
\<close>

definition rxMatch :: "bool \<Rightarrow> rx \<Rightarrow> string \<Rightarrow> string option list option" where
  "rxMatch ic r s =
     (case searchFrom ic r 0 s of
        None \<Rightarrow> None
      | Some (pos, len, caps) \<Rightarrow> Some (map (\<lambda>i. map_of caps i) [1..<Suc (groupCount r)]))"

text \<open>
  \<open>s.replace(regex, replacement)\<close> for a regular expression with the flag \<open>g\<close>. The
  replacement is a function of the matched text and the captures. The string is walked from
  left to right: \<open>skip\<close> counts the characters still covered by the last match; elsewhere a
  match is attempted, and an empty match leaves the character in place and moves on.
\<close>

primrec replaceWalk ::
  "rx \<Rightarrow> (string \<Rightarrow> (nat \<times> string) list \<Rightarrow> string) \<Rightarrow> string \<Rightarrow> nat \<Rightarrow> nat \<Rightarrow> string" where
  "replaceWalk r f [] pos skip =
     (if skip > 0 then []
      else (case execAt False r pos [] of None \<Rightarrow> [] | Some (len, caps) \<Rightarrow> f [] caps))"
| "replaceWalk r f (c # cs) pos skip =
     (if skip > 0 then replaceWalk r f cs (Suc pos) (skip - 1)
      else (case execAt False r pos (c # cs) of
              None \<Rightarrow> c # replaceWalk r f cs (Suc pos) 0
            | Some (len, caps) \<Rightarrow>
                f (take len (c # cs)) caps
                @ (if len = 0 then c # replaceWalk r f cs (Suc pos) 0
                   else replaceWalk r f cs (Suc pos) (len - 1))))"

definition replaceAll :: "rx \<Rightarrow> (string \<Rightarrow> (nat \<times> string) list \<Rightarrow> string) \<Rightarrow> string \<Rightarrow> string" where
  "replaceAll r f s = replaceWalk r f s 0 0"

text \<open>\<open>$n\<close> in a replacement: the text of group \<open>n\<close>, empty when the group took no part.\<close>

definition groupText :: "(nat \<times> string) list \<Rightarrow> nat \<Rightarrow> string" where
  "groupText caps n = (case map_of caps n of None \<Rightarrow> [] | Some t \<Rightarrow> t)"



subsection \<open>Reading the source text of a regular expression\<close>

text \<open>
  \<open>new RegExp(source)\<close> reads the pattern text. The reader below goes through the text
  character by character, keeping the groups that are still open on a stack; each entry holds
  the kind of the group, its finished alternatives and the terms of the alternative being
  read, all latest first. It yields \<open>None\<close> where ECMAScript throws a \<open>SyntaxError\<close>
  (an unbalanced parenthesis, a quantifier with nothing to repeat) and for a construct outside
  the fragment modelled (braces, ranges, back-references, look-around, \<open>\b\<close>).
\<close>

datatype groupKind = TopLevel | NonCapturing | Capturing nat

type_synonym frame = "groupKind \<times> rx list \<times> rx list"

datatype pmode =
    Normal
  | Escape
  | GroupStart
  | GroupQ
  | ClassStart
  | InClass bool "classItem list"
  | ClassEscape bool "classItem list"
  | ClassDash bool "classItem list"

record pstate =
  pmode_of :: pmode
  frames :: "frame list"
  groups :: nat
  quantifiable :: bool
  lazyable :: bool

definition initialPstate :: pstate where
  "initialPstate =
     \<lparr>pmode_of = Normal, frames = [(TopLevel, [], [])], groups = 0,
      quantifiable = False, lazyable = False\<rparr>"

fun mkAlt :: "rx list \<Rightarrow> rx" where
  "mkAlt [] = Seq []"
| "mkAlt [a] = a"
| "mkAlt (a # b # as) = Alt a (mkAlt (b # as))"

definition frameBody :: "rx list \<Rightarrow> rx list \<Rightarrow> rx" where
  "frameBody alts cur = mkAlt (rev (Seq (rev cur) # alts))"

definition pushTerm :: "rx \<Rightarrow> bool \<Rightarrow> pstate \<Rightarrow> pstate option" where
  "pushTerm t q st =
     (case frames st of
        [] \<Rightarrow> None
      | (k, alts, cur) # fs \<Rightarrow>
          Some (st\<lparr>pmode_of := Normal, frames := (k, alts, t # cur) # fs,
                   quantifiable := q, lazyable := False\<rparr>))"

definition quantify :: "(rx \<Rightarrow> rx) \<Rightarrow> pstate \<Rightarrow> pstate option" where
  "quantify q st =
     (if quantifiable st
      then (case frames st of
              (k, alts, t # cur) # fs \<Rightarrow>
                Some (st\<lparr>frames := (k, alts, q t # cur) # fs, quantifiable := False, lazyable := True\<rparr>)
            | _ \<Rightarrow> None)
      else None)"

fun lazyOf :: "rx \<Rightarrow> rx option" where
  "lazyOf (Star greedy r) = Some (Star False r)"
| "lazyOf (Plus greedy r) = Some (Plus False r)"
| "lazyOf (Opt greedy r) = Some (Opt False r)"
| "lazyOf r = None"

definition makeLazy :: "pstate \<Rightarrow> pstate option" where
  "makeLazy st =
     (case frames st of
        (k, alts, t # cur) # fs \<Rightarrow>
          (case lazyOf t of
             None \<Rightarrow> None
           | Some t' \<Rightarrow> Some (st\<lparr>frames := (k, alts, t' # cur) # fs, lazyable := False\<rparr>))
      | _ \<Rightarrow> None)"

definition openGroup :: "groupKind \<Rightarrow> pstate \<Rightarrow> pstate" where
  "openGroup k st =
     st\<lparr>pmode_of := Normal, frames := (k, [], []) # frames st,
        quantifiable := False, lazyable := False\<rparr>"

definition closeGroup :: "pstate \<Rightarrow> pstate option" where
  "closeGroup st =
     (case frames st of
        (k, alts, cur) # (pk, palts, pcur) # fs \<Rightarrow>
          (case k of
             TopLevel \<Rightarrow> None
           | NonCapturing \<Rightarrow>
               Some (st\<lparr>frames := (pk, palts, NonCap (frameBody alts cur) # pcur) # fs,
                        quantifiable := True, lazyable := False\<rparr>)
           | Capturing i \<Rightarrow>
               Some (st\<lparr>frames := (pk, palts, Group i (frameBody alts cur) # pcur) # fs,
                        quantifiable := True, lazyable := False\<rparr>))
      | _ \<Rightarrow> None)"

definition newAlternative :: "pstate \<Rightarrow> pstate option" where
  "newAlternative st =
     (case frames st of
        [] \<Rightarrow> None
      | (k, alts, cur) # fs \<Rightarrow>
          Some (st\<lparr>frames := (k, Seq (rev cur) # alts, []) # fs,
                   quantifiable := False, lazyable := False\<rparr>))"

definition normalChar :: "char \<Rightarrow> pstate \<Rightarrow> pstate option" where
  "normalChar c st =
     (if c = bslash then Some (st\<lparr>pmode_of := Escape\<rparr>)
      else if c = CHR ''['' then Some (st\<lparr>pmode_of := ClassStart\<rparr>)
      else if c = CHR ''('' then Some (st\<lparr>pmode_of := GroupStart\<rparr>)
      else if c = CHR '')'' then closeGroup st
      else if c = CHR ''|'' then newAlternative st
      else if c = CHR ''*'' then quantify (Star True) st
      else if c = CHR ''+'' then quantify (Plus True) st
      else if c = CHR ''?'' then (if lazyable st then makeLazy st else quantify (Opt True) st)
      else if c = CHR ''^'' then pushTerm Bol False st
      else if c = CHR ''$'' then pushTerm Eol False st
      else if c = CHR ''.'' then pushTerm AnyChar True st
      else if c = CHR ''{'' then None
      else pushTerm (Lit c) True st)"

definition classEscape :: "char \<Rightarrow> classItem option" where
  "classEscape c =
     (if c = CHR ''s'' then Some CSpace
      else if c = CHR ''S'' then Some CNotSpace
      else if c = CHR ''w'' then Some CWord
      else if c = CHR ''W'' then Some CNotWord
      else if c = CHR ''d'' then Some CDigit
      else if c = CHR ''D'' then Some CNotDigit
      else None)"

text \<open>
  A character escape: the control escapes, and the identity escape for every character that
  does not start another kind of escape.
\<close>

definition escapedChar :: "char \<Rightarrow> char option" where
  "escapedChar c =
     (if c = CHR ''n'' then Some (CHR 0x0A)
      else if c = CHR ''t'' then Some (CHR 0x09)
      else if c = CHR ''r'' then Some (CHR 0x0D)
      else if c = CHR ''f'' then Some (CHR 0x0C)
      else if c = CHR ''v'' then Some (CHR 0x0B)
      else if isDigit c \<or> c \<in> set ''bBcxuk'' then None
      else Some c)"

definition inClassChar :: "bool \<Rightarrow> classItem list \<Rightarrow> char \<Rightarrow> pstate \<Rightarrow> pstate option" where
  "inClassChar neg items c st =
     (if c = CHR '']'' then pushTerm (Cls neg (rev items)) True st
      else if c = bslash then Some (st\<lparr>pmode_of := ClassEscape neg items\<rparr>)
      else if c = CHR ''-'' then
        (if items = [] then Some (st\<lparr>pmode_of := InClass neg [CChar c]\<rparr>)
         else Some (st\<lparr>pmode_of := ClassDash neg items\<rparr>))
      else Some (st\<lparr>pmode_of := InClass neg (CChar c # items)\<rparr>))"

definition parseStep :: "char \<Rightarrow> pstate \<Rightarrow> pstate option" where
  "parseStep c st =
     (case pmode_of st of
        Normal \<Rightarrow> normalChar c st
      | Escape \<Rightarrow>
          (case classEscape c of
             Some item \<Rightarrow> pushTerm (Cls False [item]) True st
           | None \<Rightarrow>
               (case escapedChar c of
                  Some a \<Rightarrow> pushTerm (Lit a) True st
                | None \<Rightarrow> None))
      | GroupStart \<Rightarrow>
          (if c = CHR ''?'' then Some (st\<lparr>pmode_of := GroupQ\<rparr>)
           else normalChar c (openGroup (Capturing (Suc (groups st))) (st\<lparr>groups := Suc (groups st)\<rparr>)))
      | GroupQ \<Rightarrow> (if c = CHR '':'' then Some (openGroup NonCapturing st) else None)
      | ClassStart \<Rightarrow>
          (if c = CHR ''^'' then Some (st\<lparr>pmode_of := InClass True []\<rparr>)
           else inClassChar False [] c st)
      | InClass neg items \<Rightarrow> inClassChar neg items c st
      | ClassEscape neg items \<Rightarrow>
          (case classEscape c of
             Some item \<Rightarrow> Some (st\<lparr>pmode_of := InClass neg (item # items)\<rparr>)
           | None \<Rightarrow>
               (case escapedChar c of
                  Some a \<Rightarrow> Some (st\<lparr>pmode_of := InClass neg (CChar a # items)\<rparr>)
                | None \<Rightarrow> None))
      | ClassDash neg items \<Rightarrow>
          (if c = CHR '']'' then pushTerm (Cls neg (rev (CChar (CHR ''-'') # items))) True st
           else None))"

fun parseChars :: "string \<Rightarrow> pstate \<Rightarrow> pstate option" where
  "parseChars [] st = Some st"
| "parseChars (c # cs) st = (case parseStep c st of None \<Rightarrow> None | Some st' \<Rightarrow> parseChars cs st')"

definition parseRegExp :: "string \<Rightarrow> rx option" where
  "parseRegExp source =
     (case parseChars source initialPstate of
        None \<Rightarrow> None
      | Some st \<Rightarrow>
          (case (pmode_of st, frames st) of
             (Normal, [(TopLevel, alts, cur)]) \<Rightarrow> Some (frameBody alts cur)
           | _ \<Rightarrow> None))"

text \<open>
  \<open>input.match(new RegExp(source, 'i'))\<close>: a \<open>SyntaxError\<close>, \<open>null\<close>, or the captures.
\<close>

datatype rxResult = RxSyntaxError | RxNoMatch | RxMatch "string option list"

definition regExpMatch :: "string \<Rightarrow> string \<Rightarrow> rxResult" where
  "regExpMatch source input =
     (case parseRegExp source of
        None \<Rightarrow> RxSyntaxError
      | Some r \<Rightarrow> (case rxMatch True r input of None \<Rightarrow> RxNoMatch | Some caps \<Rightarrow> RxMatch caps))"

section \<open>Command Pattern Compiler (utils.ts)\<close>

text \<open>
  The five regular expressions of \<open>utils.ts\<close>, as the reader above reads their source text
  (see \<open>regex_literals\<close> below):
  \<^item> \<open>optionalParam = /\s*\((.*?)\)\s*/g\<close>
  \<^item> \<open>optionalRegex = /(\(\?:[^)]+\))\?/g\<close>
  \<^item> \<open>namedParam = /(\(\?)?:\w+/g\<close>
  \<^item> \<open>splatParam = /\*/g\<close>
  \<^item> \<open>escapeRegExp = /[-{}[\]+?.,\\^$|#]/g\<close>
\<close>

definition optionalParam :: rx where
  "optionalParam =
     Seq [Star True (Cls False [CSpace]), Lit (CHR ''(''), Group 1 (Seq [Star False AnyChar]),
          Lit (CHR '')''), Star True (Cls False [CSpace])]"

definition optionalRegex :: rx where
  "optionalRegex =
     Seq [Group 1 (Seq [Lit (CHR ''(''), Lit (CHR ''?''), Lit (CHR '':''),
                        Plus True (Cls True [CChar (CHR '')'')]), Lit (CHR '')'')]),
          Lit (CHR ''?'')]"

definition namedParam :: rx where
  "namedParam =
     Seq [Opt True (Group 1 (Seq [Lit (CHR ''(''), Lit (CHR ''?'')])), Lit (CHR '':''),
          Plus True (Cls False [CWord])]"

definition splatParam :: rx where
  "splatParam = Seq [Lit (CHR ''*'')]"

definition escapeRegExp :: rx where
  "escapeRegExp =
     Seq [Cls False
           [CChar (CHR ''-''), CChar (CHR ''{''), CChar (CHR ''}''), CChar (CHR ''[''),
            CChar (CHR '']''), CChar (CHR ''+''), CChar (CHR ''?''), CChar (CHR ''.''),
            CChar (CHR '',''), CChar bslash, CChar (CHR ''^''), CChar (CHR ''$''),
            CChar (CHR ''|''), CChar (CHR ''#'')]]"

text \<open>
  A command is a string or a \<open>RegExp\<close> object, of which the source text and the flags are
  kept.
\<close>

datatype pattern = PString string | PRegExp string string

text \<open>
  The chain of replacements \<open>commandToRegExp\<close> applies to a string command:
  \<^item> \<open>.replace(escapeRegExp, '\\$&')\<close>
  \<^item> \<open>.replace(optionalParam, '(?:$1)?')\<close>
  \<^item> \<open>.replace(namedParam, (match, optional) => optional ? match : '([^\\s]+)')\<close>
  \<^item> \<open>.replace(splatParam, '(.*?)')\<close>
  \<^item> \<open>.replace(optionalRegex, '\\s*$1?\\s*')\<close>
\<close>

definition processedCommand :: "string \<Rightarrow> string" where
  "processedCommand command =
     replaceAll optionalRegex
       (\<lambda>m caps. [bslash] @ ''s*'' @ groupText caps 1 @ ''?'' @ [bslash] @ ''s*'')
       (replaceAll splatParam (\<lambda>m caps. ''(.*?)'')
          (replaceAll namedParam
             (\<lambda>m caps. if groupText caps 1 \<noteq> [] then m else ''([^'' @ [bslash] @ ''s]+)'')
             (replaceAll optionalParam (\<lambda>m caps. ''(?:'' @ groupText caps 1 @ '')?'')
                (replaceAll escapeRegExp (\<lambda>m caps. bslash # m) command))))"

text \<open>
  The source text of the regular expression \<open>commandToRegExp\<close> returns; its flags are
  \<open>'i'\<close> in both cases.
\<close>

fun commandToRegExpSource :: "pattern \<Rightarrow> string" where
  "commandToRegExpSource (PRegExp source fl) = source"
| "commandToRegExpSource (PString command) = ''^'' @ processedCommand command @ ''$''"



section \<open>Command matching (utils.ts, speech-recognition.ts)\<close>

text \<open>
  The regular expression engine is a parameter of the matching functions: given the source
  text of an expression (compiled with the flag \<open>i\<close>) and an input, it throws a
  \<open>SyntaxError\<close>, finds nothing, or returns the captures. \<open>regExpMatch\<close> above is such an
  engine.
\<close>

type_synonym regExpEngine = "string \<Rightarrow> string \<Rightarrow> rxResult"

definition isAlnum :: "char \<Rightarrow> bool" where
  "isAlnum c = (let n = (of_char c :: nat) in
     (48 \<le> n \<and> n \<le> 57) \<or> (65 \<le> n \<and> n \<le> 90) \<or> (97 \<le> n \<and> n \<le> 122))"

text \<open>\<open>s.replace(/\s+/g, ' ')\<close>: every maximal run of white space becomes one space.\<close>

fun collapseSpaces :: "bool \<Rightarrow> string \<Rightarrow> string" where
  "collapseSpaces inRun [] = []"
| "collapseSpaces inRun (c # cs) =
     (if isSpace c
      then (if inRun then collapseSpaces True cs else CHR '' '' # collapseSpaces True cs)
      else c # collapseSpaces False cs)"

text \<open>
  \<open>s.replace(/[^a-zA-Z0-9\s]/g, ' ').replace(/\s+/g, ' ').trim()\<close>, the cleaning of a command
  before fuzzy matching.
\<close>

definition cleanCommand :: "string \<Rightarrow> string" where
  "cleanCommand s =
     trim (collapseSpaces False (map (\<lambda>c. if isAlnum c \<or> isSpace c then c else CHR '' '') s))"

text \<open>\<open>typeof cmd === 'object' ? cmd.toString() : cmd\<close>\<close>

fun patternToString :: "pattern \<Rightarrow> string" where
  "patternToString (PString s) = s"
| "patternToString (PRegExp source fl) = ''/'' @ source @ ''/'' @ fl"

text \<open>
  The object \<open>matchCommand\<close> returns: \<open>isMatch\<close>, and \<open>parameters\<close> or \<open>similarity\<close> when
  present. The only exception the matching itself can raise is the \<open>SyntaxError\<close> of
  \<open>new RegExp\<close>; a callback of a command can throw anything.
\<close>

record matchResult =
  isMatch :: bool
  parameters :: "string option list option"
  similarity :: "rat option"

datatype thrown = SyntaxError | CallbackError nat

text \<open>\<open>matchCommand\<close>, on the list \<open>commands\<close> it makes of its first argument.\<close>

fun matchCommand ::
  "regExpEngine \<Rightarrow> pattern list \<Rightarrow> string \<Rightarrow> bool \<Rightarrow> rat \<Rightarrow> thrown + matchResult" where
  "matchCommand engine [] input isFuzzy threshold =
     Inr \<lparr>isMatch = False, parameters = None, similarity = None\<rparr>"
| "matchCommand engine (cmd # cmds) input isFuzzy threshold =
     (if isFuzzy
      then (let cleanCmd = cleanCommand (patternToString cmd);
                sim = compareTwoStringsUsingDiceCoefficient cleanCmd input
            in if sim \<ge> threshold
               then Inr \<lparr>isMatch = True, parameters = None, similarity = Some sim\<rparr>
               else matchCommand engine cmds input isFuzzy threshold)
      else (case engine (commandToRegExpSource cmd) input of
              RxSyntaxError \<Rightarrow> Inl SyntaxError
            | RxMatch caps \<Rightarrow> Inr \<lparr>isMatch = True, parameters = Some caps, similarity = None\<rparr>
            | RxNoMatch \<Rightarrow> matchCommand engine cmds input isFuzzy threshold))"

text \<open>
  A registered command. Its callback is a function of the arguments it is called with, and
  either returns or throws; the optional flags are false when absent.
\<close>

datatype callbackArgs =
    ExactCall "string option list" pattern
  | FuzzyCall string string rat pattern

datatype callbackOutcome = Returns | Throws

datatype commandSpec = Single pattern | Many "string list"

record SpeechRecognitionCommand =
  command :: commandSpec
  callback :: "callbackArgs \<Rightarrow> callbackOutcome"
  matchInterim :: bool
  isFuzzyMatch :: bool
  fuzzyMatchingThreshold :: "rat option"
  bestMatchOnly :: bool

text \<open>\<open>Array.isArray(command) ? command : [command]\<close>\<close>

fun commandsToTest :: "commandSpec \<Rightarrow> pattern list" where
  "commandsToTest (Single p) = [p]"
| "commandsToTest (Many ss) = map PString ss"

text \<open>
  \<open>testFuzzyMatch\<close> of the hook, with the command it was given: the entries of the array
  \<open>matches\<close>.
\<close>

record fuzzyMatch =
  fm_command :: pattern
  fm_isMatch :: bool
  fm_similarity :: rat
  fm_cleanCommand :: string

definition testFuzzyMatch :: "regExpEngine \<Rightarrow> pattern \<Rightarrow> string \<Rightarrow> rat \<Rightarrow> fuzzyMatch" where
  "testFuzzyMatch engine cmd input threshold =
     (let commandWithoutSpecials = cleanCommand (patternToString cmd)
      in (case matchCommand engine [PString commandWithoutSpecials] input True threshold of
            Inr r \<Rightarrow>
              \<lparr>fm_command = cmd, fm_isMatch = isMatch r,
               fm_similarity = (case similarity r of None \<Rightarrow> 0 | Some x \<Rightarrow> x),
               fm_cleanCommand = commandWithoutSpecials\<rparr>
          | Inl e \<Rightarrow>
              \<lparr>fm_command = cmd, fm_isMatch = False, fm_similarity = 0,
               fm_cleanCommand = commandWithoutSpecials\<rparr>))"

text \<open>
  What a matching pass does is the list of callback invocations it makes, each with the index
  of the command in the registered list, and the exception that ended it, if any. Calling a
  list of argument tuples in turn stops at the first call that throws.
\<close>

type_synonym invocation = "nat \<times> callbackArgs"

fun invokeAll ::
  "nat \<Rightarrow> (callbackArgs \<Rightarrow> callbackOutcome) \<Rightarrow> callbackArgs list \<Rightarrow> invocation list \<times> thrown option" where
  "invokeAll i cb [] = ([], None)"
| "invokeAll i cb (a # as) =
     (case cb a of
        Throws \<Rightarrow> ([(i, a)], Some (CallbackError i))
      | Returns \<Rightarrow> (let (l, t) = invokeAll i cb as in ((i, a) # l, t)))"

text \<open>The \<open>forEach\<close> over \<open>commandsToTest\<close> in exact mode.\<close>

fun exactLoop ::
  "regExpEngine \<Rightarrow> nat \<Rightarrow> (callbackArgs \<Rightarrow> callbackOutcome) \<Rightarrow> string \<Rightarrow> pattern list
     \<Rightarrow> invocation list \<times> thrown option" where
  "exactLoop engine i cb testTranscript [] = ([], None)"
| "exactLoop engine i cb testTranscript (cmd # cmds) =
     (case matchCommand engine [cmd] testTranscript False (4 / 5) of
        Inl e \<Rightarrow> ([], Some e)
      | Inr r \<Rightarrow>
          (if isMatch r
           then (case parameters r of
                   Some ps \<Rightarrow>
                     (case cb (ExactCall ps cmd) of
                        Throws \<Rightarrow> ([(i, ExactCall ps cmd)], Some (CallbackError i))
                      | Returns \<Rightarrow>
                          (let (l, t) = exactLoop engine i cb testTranscript cmds
                           in ((i, ExactCall ps cmd) # l, t)))
                 | None \<Rightarrow>
                     (case cb (ExactCall [] cmd) of
                        Throws \<Rightarrow> ([(i, ExactCall [] cmd)], Some (CallbackError i))
                      | Returns \<Rightarrow>
                          (let (l, t) = exactLoop engine i cb testTranscript cmds
                           in ((i, ExactCall [] cmd) # l, t))))
           else exactLoop engine i cb testTranscript cmds))"

text \<open>
  \<open>matches.reduce((best, current) => current.similarity > best.similarity ? current : best)\<close>
\<close>

definition bestMatchOf :: "fuzzyMatch \<Rightarrow> fuzzyMatch list \<Rightarrow> fuzzyMatch" where
  "bestMatchOf first others =
     foldl (\<lambda>best current. if fm_similarity current > fm_similarity best then current else best)
       first others"

definition fuzzyArgs :: "string \<Rightarrow> fuzzyMatch \<Rightarrow> callbackArgs" where
  "fuzzyArgs testTranscript m =
     FuzzyCall (fm_cleanCommand m) testTranscript (fm_similarity m) (fm_command m)"

text \<open>
  The body of the \<open>forEach\<close> over the registered commands, for the command at index \<open>i\<close>.
  Similarities and thresholds are rationals, as the score is; the default threshold \<open>0.8\<close> is
  \<open>4/5\<close>.
\<close>

definition evalCommand ::
  "regExpEngine \<Rightarrow> string \<Rightarrow> string \<Rightarrow> nat \<Rightarrow> SpeechRecognitionCommand
     \<Rightarrow> invocation list \<times> thrown option" where
  "evalCommand engine interim final i commandItem =
     (let transcript = concatTranscripts [final, interim];
          threshold = (case fuzzyMatchingThreshold commandItem of None \<Rightarrow> 4 / 5 | Some t \<Rightarrow> t);
          cmds = commandsToTest (command commandItem)
      in if (interim \<noteq> [] \<and> \<not> matchInterim commandItem) \<or> trim transcript = []
         then ([], None)
         else (let testTranscript = (if matchInterim commandItem then transcript else final)
               in if trim testTranscript = [] then ([], None)
                  else if isFuzzyMatch commandItem
                  then (case filter fm_isMatch
                               (map (\<lambda>cmd. testFuzzyMatch engine cmd testTranscript threshold) cmds) of
                          [] \<Rightarrow> ([], None)
                        | m # ms \<Rightarrow>
                            (if bestMatchOnly commandItem
                             then invokeAll i (callback commandItem)
                                    [fuzzyArgs testTranscript (bestMatchOf m ms)]
                             else invokeAll i (callback commandItem)
                                    (map (fuzzyArgs testTranscript) (m # ms))))
                  else exactLoop engine i (callback commandItem) testTranscript cmds))"

text \<open>
  \<open>commandsRef.current.forEach(...)\<close>: an exception leaves the loop, and with it
  \<open>matchCommands\<close>. The first command has index \<open>n\<close>.
\<close>

fun matchCommandsFrom ::
  "regExpEngine \<Rightarrow> string \<Rightarrow> string \<Rightarrow> nat \<Rightarrow> SpeechRecognitionCommand list
     \<Rightarrow> invocation list \<times> thrown option" where
  "matchCommandsFrom engine interim final n [] = ([], None)"
| "matchCommandsFrom engine interim final n (c # cs) =
     (case evalCommand engine interim final n c of
        (l, Some e) \<Rightarrow> (l, Some e)
      | (l, None) \<Rightarrow>
          (let (l', t) = matchCommandsFrom engine interim final (Suc n) cs
           in (l @ l', t)))"

definition matchCommands ::
  "regExpEngine \<Rightarrow> SpeechRecognitionCommand list \<Rightarrow> string \<Rightarrow> string
     \<Rightarrow> invocation list \<times> thrown option" where
  "matchCommands engine commands interim final =
     matchCommandsFrom engine interim final 0 commands"

text \<open>
  Two callbacks and an engine for examples: a callback that always throws, one that always
  returns, and an engine without syntax errors that matches an input against its own text
  between anchors.
\<close>

definition alwaysThrows :: "callbackArgs \<Rightarrow> callbackOutcome" where
  "alwaysThrows a = Throws"

definition alwaysReturns :: "callbackArgs \<Rightarrow> callbackOutcome" where
  "alwaysReturns a = Returns"

definition literalEngine :: regExpEngine where
  "literalEngine source input = (if source = ''^'' @ input @ ''$'' then RxMatch [] else RxNoMatch)"

definition exactCommand :: "string \<Rightarrow> (callbackArgs \<Rightarrow> callbackOutcome) \<Rightarrow> SpeechRecognitionCommand" where
  "exactCommand s cb =
     \<lparr>command = Single (PString s), callback = cb, matchInterim = False, isFuzzyMatch = False,
      fuzzyMatchingThreshold = None, bestMatchOnly = False\<rparr>"

section \<open>Properties of the Text Normalizer\<close>

lemma splitSpaces_token:
  assumes "\<forall>c \<in> set w. \<not> isSpace c"
  shows "splitSpaces w = [w]"
proof -
  have h: "dropWhile (\<lambda>c. \<not> isSpace c) w = []" using assms by simp
  show ?thesis by (subst splitSpaces.simps) (simp only: h list.case)
qed

lemma splitSpaces_token_space:
  assumes "\<forall>c \<in> set w. \<not> isSpace c" and "isSpace d"
  shows "splitSpaces (w @ d # rest) = w # splitSpaces (dropWhile isSpace rest)"
proof -
  have d: "dropWhile (\<lambda>c. \<not> isSpace c) (w @ d # rest) = d # rest"
    using assms by (simp add: dropWhile_append3)
  have t: "takeWhile (\<lambda>c. \<not> isSpace c) (w @ d # rest) = w"
    using assms by (simp add: takeWhile_tail)
  show ?thesis
    by (subst splitSpaces.simps) (simp add: d t)
qed

lemma splitSpaces_joinSpace:
  "ws \<noteq> [] \<Longrightarrow> \<forall>w \<in> set ws. isToken w \<Longrightarrow> splitSpaces (joinSpace ws) = ws"
proof (induction ws rule: joinSpace.induct)
  case 1
  then show ?case by simp
next
  case (2 w)
  then show ?case by (simp add: isToken_def splitSpaces_token)
next
  case (3 w v ws)
  have sp: "isSpace CHR '' ''" by (simp add: isSpace_def)
  have w: "\<forall>c \<in> set w. \<not> isSpace c" using 3 by (simp add: isToken_def)
  have "joinSpace (v # ws) \<noteq> []" using 3(3) by (cases ws) (auto simp: isToken_def)
  moreover have "\<not> isSpace (hd (joinSpace (v # ws)))"
    using 3(3) by (cases ws) (auto simp: isToken_def hd_append)
  ultimately have dw: "dropWhile isSpace (joinSpace (v # ws)) = joinSpace (v # ws)"
    by (simp add: dropWhile_eq_self_iff)
  have "splitSpaces (joinSpace (w # v # ws)) = w # splitSpaces (joinSpace (v # ws))"
    using splitSpaces_token_space [OF w sp, of "joinSpace (v # ws)"] dw by simp
  then show ?case using 3 by simp
qed

lemma splitSpaces_nonempty: "splitSpaces s \<noteq> []"
  by (subst splitSpaces.simps) (simp split: list.splits)

lemma splitSpaces_tokens:
  "s \<noteq> [] \<Longrightarrow> \<not> isSpace (hd s) \<Longrightarrow> \<not> isSpace (last s) \<Longrightarrow> \<forall>w \<in> set (splitSpaces s). isToken w"
proof (induction s rule: splitSpaces.induct)
  case (1 s)
  show ?case
  proof (cases "dropWhile (\<lambda>c. \<not> isSpace c) s")
    case Nil
    have "splitSpaces s = [s]" by (subst splitSpaces.simps) (simp only: Nil list.case)
    moreover have "isToken s" using Nil 1(2) by (simp add: isToken_def)
    ultimately show ?thesis by simp
  next
    case (Cons r rs)
    let ?t = "takeWhile (\<lambda>c. \<not> isSpace c) s"
    let ?rest = "dropWhile isSpace rs"
    have s: "s = ?t @ r # rs" using Cons takeWhile_dropWhile_id [of "\<lambda>c. \<not> isSpace c" s] by simp
    have r: "isSpace r" using Cons hd_dropWhile [of "\<lambda>c. \<not> isSpace c" s] by simp
    have t: "isToken ?t"
      using 1(2,3) by (auto simp: isToken_def takeWhile_eq_Nil_iff dest: set_takeWhileD)
    have "last s = last (r # rs)" by (subst s) simp
    then have lr: "\<not> isSpace (last (r # rs))" using 1(4) by simp
    have ne: "?rest \<noteq> []"
    proof
      assume "?rest = []"
      then have "\<forall>c \<in> set rs. isSpace c" by simp
      then have "isSpace (last (r # rs))" using r by (cases rs) auto
      then show False using lr by simp
    qed
    then have rsne: "rs \<noteq> []" by auto
    have hd: "\<not> isSpace (hd ?rest)" using ne by (rule hd_dropWhile)
    have "rs = takeWhile isSpace rs @ ?rest" by simp
    then have "last rs = last ?rest" using ne by (metis last_appendR)
    then have la: "\<not> isSpace (last ?rest)" using lr rsne by simp
    have "\<forall>w \<in> set (splitSpaces ?rest). isToken w"
      using 1(1) [OF Cons ne hd la] .
    moreover have "splitSpaces s = ?t # splitSpaces ?rest"
      by (subst splitSpaces.simps) (simp add: Cons)
    ultimately show ?thesis using t by simp
  qed
qed

lemma trim_hd: "trim s \<noteq> [] \<Longrightarrow> \<not> isSpace (hd (trim s))"
proof -
  assume ne: "trim s \<noteq> []"
  let ?d = "dropWhile isSpace s"
  have d: "?d \<noteq> []"
  proof
    assume "?d = []"
    then have "trim s = []" by (simp only: trim_def rev.simps dropWhile.simps)
    then show False using ne by simp
  qed
  then have h: "\<not> isSpace (hd ?d)" by (rule hd_dropWhile)
  have "?d = trim s @ rev (takeWhile isSpace (rev ?d))"
    unfolding trim_def by (metis rev_append rev_rev_ident takeWhile_dropWhile_id)
  then have "hd ?d = hd (trim s)" using ne by (metis hd_append2)
  then show ?thesis using h by simp
qed

lemma trim_last: "trim s \<noteq> [] \<Longrightarrow> \<not> isSpace (last (trim s))"
proof -
  assume ne: "trim s \<noteq> []"
  let ?r = "dropWhile isSpace (rev (dropWhile isSpace s))"
  have "?r \<noteq> []" using ne by (simp add: trim_def)
  then have "\<not> isSpace (hd ?r)" by (rule hd_dropWhile)
  moreover have "last (trim s) = hd ?r" unfolding trim_def using \<open>?r \<noteq> []\<close> by (simp add: last_rev)
  ultimately show ?thesis by simp
qed

lemma trim_tight:
  assumes "s = [] \<or> (\<not> isSpace (hd s) \<and> \<not> isSpace (last s))"
  shows "trim s = s"
proof (cases "s = []")
  case True
  then show ?thesis by (simp add: trim_def)
next
  case False
  then have a: "dropWhile isSpace s = s" using assms by (simp add: dropWhile_eq_self_iff)
  have "hd (rev s) = last s" using False by (simp add: hd_rev)
  then have b: "dropWhile isSpace (rev s) = rev s"
    using assms False by (simp add: dropWhile_eq_self_iff)
  show ?thesis by (simp add: trim_def a b)
qed

lemma trim_trim: "trim (trim s) = trim s"
  using trim_hd [of s] trim_last [of s] by (intro trim_tight) blast

lemma tokensOf_tokens: "\<forall>w \<in> set (tokensOf s). isToken w"
  using splitSpaces_tokens [of "trim s"] trim_hd [of s] trim_last [of s]
  by (simp add: tokensOf_def)

lemma joinSpace_tight:
  "ws \<noteq> [] \<Longrightarrow> \<forall>w \<in> set ws. isToken w \<Longrightarrow>
     joinSpace ws \<noteq> [] \<and> \<not> isSpace (hd (joinSpace ws)) \<and> \<not> isSpace (last (joinSpace ws))"
proof (induction ws rule: joinSpace.induct)
  case 1
  then show ?case by simp
next
  case (2 w)
  then have "w \<noteq> []" and "\<forall>c \<in> set w. \<not> isSpace c" by (simp_all add: isToken_def)
  then show ?case using hd_in_set [of w] last_in_set [of w] by auto
next
  case (3 w v ws)
  then have w: "w \<noteq> []" and ws: "\<forall>c \<in> set w. \<not> isSpace c" by (simp_all add: isToken_def)
  have ih: "joinSpace (v # ws) \<noteq> [] \<and> \<not> isSpace (last (joinSpace (v # ws)))"
    using 3 by simp
  have "hd (joinSpace (w # v # ws)) = hd w" using w by simp
  moreover have "last (joinSpace (w # v # ws)) = last (joinSpace (v # ws))" using ih by simp
  ultimately show ?case using ih w ws hd_in_set [of w] by auto
qed

lemma tokensOf_joinSpace:
  assumes "\<forall>w \<in> set ws. isToken w"
  shows "tokensOf (joinSpace ws) = ws"
proof (cases "ws = []")
  case True
  then show ?thesis by (simp add: tokensOf_def trim_def)
next
  case False
  have t: "trim (joinSpace ws) = joinSpace ws"
    using joinSpace_tight [OF False assms] by (intro trim_tight) simp
  show ?thesis
    using joinSpace_tight [OF False assms] splitSpaces_joinSpace [OF False assms]
    by (simp add: tokensOf_def t)
qed

lemma filterWords_subset: "set (filterWords p ws) \<subseteq> set ws"
  by (induction ws arbitrary: p) auto

lemma filterWords_subseq: "subseq (filterWords p ws) ws"
  by (induction ws arbitrary: p) auto

lemma filterWords_None_nonempty: "ws \<noteq> [] \<Longrightarrow> filterWords None ws \<noteq> []"
  by (cases ws) auto

lemma filterWords_hd:
  "filterWords p ws = x # xs \<Longrightarrow> Some (wordKey x) \<noteq> map_option wordKey p"
proof (induction ws arbitrary: p)
  case Nil
  then show ?case by simp
next
  case (Cons w ws)
  show ?case
  proof (cases "Some (wordKey w) \<noteq> map_option wordKey p")
    case True
    then have "x = w" using Cons.prems by simp
    then show ?thesis using True by simp
  next
    case False
    then have "filterWords (Some w) ws = x # xs" using Cons.prems by simp
    then have "Some (wordKey x) \<noteq> map_option wordKey (Some w)" by (rule Cons.IH)
    then show ?thesis using False by (cases p) auto
  qed
qed

lemma filterWords_distinct_adj: "distinct_adj (map wordKey (filterWords p ws))"
proof (induction ws arbitrary: p)
  case Nil
  then show ?case by simp
next
  case (Cons w ws)
  show ?case
  proof (cases "filterWords (Some w) ws")
    case Nil
    then show ?thesis by simp
  next
    case (Cons x xs)
    have "wordKey x \<noteq> wordKey w" using filterWords_hd [OF Cons] by simp
    moreover have "distinct_adj (map wordKey (x # xs))" using Cons.IH [of "Some w"] Cons by simp
    ultimately show ?thesis using Cons Cons.IH [of "Some w"] by auto
  qed
qed

lemma filterWords_id:
  "distinct_adj (map wordKey ws) \<Longrightarrow> ws = [] \<or> Some (wordKey (hd ws)) \<noteq> map_option wordKey p \<Longrightarrow>
     filterWords p ws = ws"
proof (induction ws arbitrary: p)
  case Nil
  then show ?case by simp
next
  case (Cons w ws)
  have "filterWords (Some w) ws = ws"
  proof (rule Cons.IH)
    show "distinct_adj (map wordKey ws)" using Cons.prems(1) by (cases ws) auto
    show "ws = [] \<or> Some (wordKey (hd ws)) \<noteq> map_option wordKey (Some w)"
      using Cons.prems(1) by (cases ws) auto
  qed
  then show ?case using Cons.prems(2) by simp
qed

lemma filterWords_idem: "filterWords None (filterWords None ws) = filterWords None ws"
  by (rule filterWords_id) (simp_all add: filterWords_distinct_adj)

lemma removeDuplicateWords_tokens:
  "removeDuplicateWords t = joinSpace (filterWords None (tokensOf t))"
  by (auto simp: removeDuplicateWords_def tokensOf_def trim_def)

lemma tokensOf_removeDuplicateWords:
  "tokensOf (removeDuplicateWords t) = filterWords None (tokensOf t)"
  unfolding removeDuplicateWords_tokens
  using tokensOf_tokens [of t] filterWords_subset [of None "tokensOf t"]
  by (intro tokensOf_joinSpace) blast

lemma removeDuplicateWords_idem:
  "removeDuplicateWords (removeDuplicateWords x) = removeDuplicateWords x"
proof -
  have "removeDuplicateWords (removeDuplicateWords x)
          = joinSpace (filterWords None (tokensOf (removeDuplicateWords x)))"
    by (rule removeDuplicateWords_tokens)
  also have "\<dots> = joinSpace (filterWords None (filterWords None (tokensOf x)))"
    by (simp only: tokensOf_removeDuplicateWords)
  also have "\<dots> = joinSpace (filterWords None (tokensOf x))"
    by (simp only: filterWords_idem)
  also have "\<dots> = removeDuplicateWords x"
    by (rule removeDuplicateWords_tokens [symmetric])
  finally show ?thesis .
qed

lemma filterWords_nth:
  "filterWords p ws =
     map (\<lambda>i. ws ! i)
       (filter (\<lambda>i. Some (wordKey (ws ! i)) \<noteq> (if i = 0 then map_option wordKey p else Some (wordKey (ws ! (i - 1)))))
          [0..<length ws])"
proof (induction ws arbitrary: p)
  case Nil
  then show ?case by simp
next
  case (Cons w ws)
  have upt: "[0..<length (w # ws)] = 0 # map Suc [0..<length ws]"
    by (simp add: upt_conv_Cons map_Suc_upt del: upt_Suc)
  have tl: "map (\<lambda>i. (w # ws) ! i)
       (filter (\<lambda>i. Some (wordKey ((w # ws) ! i)) \<noteq> (if i = 0 then map_option wordKey p else Some (wordKey ((w # ws) ! (i - 1)))))
          (map Suc [0..<length ws])) = filterWords (Some w) ws"
    unfolding Cons.IH [of "Some w"]
    by (simp add: filter_map o_def nth_Cons' cong: filter_cong map_cong)
  show ?case
    unfolding upt using tl by simp
qed

lemma filterWords_None_nth:
  "filterWords None ws =
     map (\<lambda>i. ws ! i) (filter (\<lambda>i. i = 0 \<or> wordKey (ws ! i) \<noteq> wordKey (ws ! (i - 1))) [0..<length ws])"
  unfolding filterWords_nth [of None ws]
  by (rule arg_cong [where f = "map _"], rule filter_cong) auto

text \<open>
  The tokens of a string are non-empty and free of white space (\<open>tokensOf_tokens\<close>), and
  together they are the characters of the string that are not white space.
\<close>

lemma filter_not_dropWhile: "filter (\<lambda>c. \<not> P c) (dropWhile P xs) = filter (\<lambda>c. \<not> P c) xs"
  by (induction xs) simp_all

lemma concat_splitSpaces: "concat (splitSpaces t) = filter (\<lambda>c. \<not> isSpace c) t"
proof (induction t rule: splitSpaces.induct)
  case (1 s)
  show ?case
  proof (cases "dropWhile (\<lambda>c. \<not> isSpace c) s")
    case Nil
    have "splitSpaces s = [s]" by (subst splitSpaces.simps) (simp only: Nil list.case)
    moreover have "filter (\<lambda>c. \<not> isSpace c) s = s" using Nil by simp
    ultimately show ?thesis by simp
  next
    case (Cons r rs)
    let ?t = "takeWhile (\<lambda>c. \<not> isSpace c) s"
    have r: "isSpace r" using Cons hd_dropWhile [of "\<lambda>c. \<not> isSpace c" s] by simp
    have a: "splitSpaces s = ?t # splitSpaces (dropWhile isSpace rs)"
      by (subst splitSpaces.simps) (simp add: Cons)
    have "filter (\<lambda>c. \<not> isSpace c) s
        = filter (\<lambda>c. \<not> isSpace c) ?t @ filter (\<lambda>c. \<not> isSpace c) (dropWhile (\<lambda>c. \<not> isSpace c) s)"
      by (metis filter_append takeWhile_dropWhile_id)
    also have "\<dots> = ?t @ filter (\<lambda>c. \<not> isSpace c) rs"
    proof -
      have "filter (\<lambda>c. \<not> isSpace c) ?t = ?t"
        by (rule filter_True) (auto dest: set_takeWhileD)
      then show ?thesis using r by (simp add: Cons)
    qed
    finally show ?thesis
      using 1 [OF Cons] by (simp add: a filter_not_dropWhile)
  qed
qed

lemma filter_trim: "filter (\<lambda>c. \<not> isSpace c) (trim s) = filter (\<lambda>c. \<not> isSpace c) s"
proof -
  have "filter (\<lambda>c. \<not> isSpace c) (trim s)
      = rev (filter (\<lambda>c. \<not> isSpace c) (dropWhile isSpace (rev (dropWhile isSpace s))))"
    by (simp add: trim_def rev_filter)
  also have "\<dots> = rev (filter (\<lambda>c. \<not> isSpace c) (rev (dropWhile isSpace s)))"
    by (simp only: filter_not_dropWhile)
  also have "\<dots> = filter (\<lambda>c. \<not> isSpace c) (dropWhile isSpace s)"
    by (simp add: rev_filter)
  finally show ?thesis by (simp only: filter_not_dropWhile)
qed

lemma concat_tokensOf: "concat (tokensOf s) = filter (\<lambda>c. \<not> isSpace c) s"
proof (cases "trim s = []")
  case True
  then have "filter (\<lambda>c. \<not> isSpace c) (trim s) = []" by simp
  then have "filter (\<lambda>c. \<not> isSpace c) s = []" by (simp only: filter_trim)
  then show ?thesis using True by (simp add: tokensOf_def)
next
  case False
  then show ?thesis by (simp add: tokensOf_def concat_splitSpaces filter_trim)
qed


text \<open>
  Claim C7. The Text Normalizer is idempotent; a token is dropped exactly when its key equals
  the key of the token immediately before it in the input (token \<open>i\<close> is compared with
  token \<open>i - 1\<close> only, so a word that comes back later is kept); and
  \<open>removeDuplicateWords("Hello Hello Hello How you doing Hello How you doing")\<close> is
  \<open>"Hello How you doing Hello How you doing"\<close>.
\<close>

theorem removeDuplicateWords_idempotent_adjacent:
  "removeDuplicateWords (removeDuplicateWords x) = removeDuplicateWords x
   \<and> tokensOf (removeDuplicateWords x) =
       map (\<lambda>i. tokensOf x ! i)
         (filter (\<lambda>i. i = 0 \<or> wordKey (tokensOf x ! i) \<noteq> wordKey (tokensOf x ! (i - 1)))
            [0..<length (tokensOf x)])
   \<and> removeDuplicateWords ''Hello Hello Hello How you doing Hello How you doing''
       = ''Hello How you doing Hello How you doing''"
proof (intro conjI)
  show "removeDuplicateWords (removeDuplicateWords x) = removeDuplicateWords x"
    by (rule removeDuplicateWords_idem)
  show "tokensOf (removeDuplicateWords x) =
       map (\<lambda>i. tokensOf x ! i)
         (filter (\<lambda>i. i = 0 \<or> wordKey (tokensOf x ! i) \<noteq> wordKey (tokensOf x ! (i - 1)))
            [0..<length (tokensOf x)])"
    by (simp only: tokensOf_removeDuplicateWords filterWords_None_nth [symmetric])
  show "removeDuplicateWords ''Hello Hello Hello How you doing Hello How you doing''
       = ''Hello How you doing Hello How you doing''"
    by code_simp
qed

theorem removeDuplicateWords_idempotent_adjacent_witness:
  "removeDuplicateWords (removeDuplicateWords ''so so long, So'') = ''so long, So''
   \<and> tokensOf (removeDuplicateWords ''so so long, So'') = [''so'', ''long,'', ''So'']"
proof -
  have r: "removeDuplicateWords ''so so long, So'' = ''so long, So''"
    by code_simp
  have t: "tokensOf ''so long, So'' = [''so'', ''long,'', ''So'']"
    by code_simp
  show ?thesis
    using removeDuplicateWords_idempotent_adjacent [of "''so so long, So''"] r t by simp
qed

text \<open>
  Claim C8, as amended. Every token of the output is a token of the input, verbatim (casing and
  punctuation untouched) and in the input's order, a token being dropped only as a duplicate of
  its predecessor; but the white space of the input is not kept: the output is the surviving
  tokens joined by exactly one space character each, without leading or trailing white space.
\<close>

theorem removeDuplicateWords_tokens_single_spaced:
  "tokensOf (removeDuplicateWords t) = filterWords None (tokensOf t)
   \<and> subseq (tokensOf (removeDuplicateWords t)) (tokensOf t)
   \<and> removeDuplicateWords t = joinSpace (tokensOf (removeDuplicateWords t))"
proof (intro conjI)
  show a: "tokensOf (removeDuplicateWords t) = filterWords None (tokensOf t)"
    by (rule tokensOf_removeDuplicateWords)
  show "subseq (tokensOf (removeDuplicateWords t)) (tokensOf t)"
    unfolding a by (rule filterWords_subseq)
  show "removeDuplicateWords t = joinSpace (tokensOf (removeDuplicateWords t))"
    unfolding a by (rule removeDuplicateWords_tokens)
qed

theorem removeDuplicateWords_tokens_single_spaced_witness:
  "tokensOf (removeDuplicateWords ''Hi,   hi there'') = [''Hi,'', ''there'']
   \<and> removeDuplicateWords ''Hi,   hi there'' = ''Hi, there''"
proof -
  have f: "filterWords None (tokensOf ''Hi,   hi there'') = [''Hi,'', ''there'']"
    by code_simp
  have j: "joinSpace [''Hi,'', ''there''] = ''Hi, there''"
    by simp
  note inst = removeDuplicateWords_tokens_single_spaced [of "''Hi,   hi there''"]
  have a: "tokensOf (removeDuplicateWords ''Hi,   hi there'') = [''Hi,'', ''there'']"
    using inst f by simp
  have "removeDuplicateWords ''Hi,   hi there''
          = joinSpace (tokensOf (removeDuplicateWords ''Hi,   hi there''))"
    using inst by blast
  then have "removeDuplicateWords ''Hi,   hi there'' = ''Hi, there''"
    by (simp only: a j)
  then show ?thesis using a by simp
qed

text \<open>
  Claim C8 as stated fails: no token of \<open>"Hi  there"\<close> is a duplicate, yet the two spaces
  between its tokens come out as one.
\<close>

theorem removeDuplicateWords_whitespace_counterexample:
  "removeDuplicateWords ''Hi  there'' = ''Hi there''
   \<and> removeDuplicateWords ''Hi  there'' \<noteq> ''Hi  there''"
  by code_simp

section \<open>Properties of the Similarity Scorer\<close>


lemma substring_bigram: "Suc i < length s \<Longrightarrow> substring s i (i + 2) = [s ! i, s ! Suc i]"
  by (simp add: substring_def Let_def min_def max_def take_Suc_conv_app_nth
      Cons_nth_drop_Suc [symmetric] numeral_2_eq_2)

lemma substring_Cons_Suc: "substring (a # s) (Suc i) (Suc j) = substring s i j"
  by (simp add: substring_def Let_def min_def max_def)

lemma bigrams_upt: "map (\<lambda>i. substring s i (i + 2)) [0..<length s - 1] = bigrams s"
proof (induction s rule: bigrams.induct)
  case (1 a b s)
  have u: "[0..<length (a # b # s) - 1] = 0 # map Suc [0..<length (b # s) - 1]"
    by (simp add: upt_conv_Cons map_Suc_upt del: upt_Suc)
  have h: "substring (a # b # s) 0 (0 + 2) = [a, b]"
    by (simp add: substring_def)
  have "map (\<lambda>i. substring (a # b # s) i (i + 2)) (map Suc [0..<length (b # s) - 1])
      = map (\<lambda>i. substring (b # s) i (i + 2)) [0..<length (b # s) - 1]"
    by (simp add: substring_Cons_Suc o_def)
  also have "\<dots> = bigrams (b # s)" by (rule 1)
  finally show ?case unfolding u using h by simp
qed (simp_all)

lemma countOf_countBigram:
  "countOf (countBigram b m) x = (if x = b then countOf m b + 1 else countOf m x)"
  by (simp add: countOf_def countBigram_def split: option.splits)

lemma fold_countBigram:
  "countOf (fold countBigram bs m) x = countOf m x + count (mset bs) x"
  by (induction bs arbitrary: m) (simp_all add: countOf_countBigram)

lemma firstBigramsOf_count: "countOf (firstBigramsOf s) x = count (mset (bigrams s)) x"
proof -
  have "firstBigramsOf s = fold countBigram (map (\<lambda>i. substring s i (i + 2)) [0..<length s - 1]) Map.empty"
    by (simp add: firstBigramsOf_def fold_map o_def)
  then have "firstBigramsOf s = fold countBigram (bigrams s) Map.empty"
    by (simp only: bigrams_upt)
  then have "countOf (firstBigramsOf s) x = countOf Map.empty x + count (mset (bigrams s)) x"
    by (simp only: fold_countBigram)
  then show ?thesis by (simp add: countOf_def)
qed

lemma fold_consumeBigram:
  "\<forall>x. countOf m x = count M x \<Longrightarrow>
     snd (fold consumeBigram cs (m, n)) = n + size (M \<inter># mset cs)"
proof (induction cs arbitrary: m M n)
  case Nil
  then show ?case by simp
next
  case (Cons b cs)
  show ?case
  proof (cases "b \<in># M")
    case True
    then have pos: "countOf m b > 0" using Cons.prems by simp
    have step: "consumeBigram b (m, n) = (m(b \<mapsto> countOf m b - 1), n + 1)"
      using pos by (simp add: consumeBigram_def countOf_def Let_def)
    have rel: "\<forall>x. countOf (m(b \<mapsto> countOf m b - 1)) x = count (M - {#b#}) x"
      using Cons.prems by (simp add: countOf_def)
    obtain M' where M: "M = add_mset b M'" using True by (meson mset_add)
    have "size (M \<inter># mset (b # cs)) = Suc (size ((M - {#b#}) \<inter># mset cs))"
      by (simp add: M)
    moreover have "snd (fold consumeBigram (b # cs) (m, n))
        = snd (fold consumeBigram cs (m(b \<mapsto> countOf m b - 1), n + 1))"
      by (simp only: fold_simps step)
    ultimately show ?thesis
      using Cons.IH [OF rel, of "n + 1"] by (simp del: fun_upd_apply)
  next
    case False
    then have z: "countOf m b = 0" using Cons.prems by (simp add: not_in_iff)
    have step: "consumeBigram b (m, n) = (m, n)"
      using z by (simp add: consumeBigram_def countOf_def Let_def)
    have "M \<inter># mset (b # cs) = M \<inter># mset cs"
      using False by (simp add: inter_add_right1)
    then show ?thesis
      using Cons.IH [OF Cons.prems, of n] by (simp add: step)
  qed
qed

lemma intersectionSizeOf_mset:
  "intersectionSizeOf first second = size (mset (bigrams first) \<inter># mset (bigrams second))"
proof -
  have "intersectionSizeOf first second
      = snd (fold consumeBigram (map (\<lambda>i. substring second i (i + 2)) [0..<length second - 1])
              (firstBigramsOf first, 0))"
    by (simp add: intersectionSizeOf_def fold_map o_def)
  also have "\<dots> = 0 + size (mset (bigrams first) \<inter># mset (bigrams second))"
    unfolding bigrams_upt
    by (rule fold_consumeBigram) (simp add: firstBigramsOf_count)
  finally show ?thesis by simp
qed

text \<open>
  Claim C5. The score is exactly 1 when the two inputs are identical once all white space is
  stripped (both empty included); 0 when they differ and one of the stripped inputs has fewer
  than two characters; and otherwise \<open>2 * I / (len1 + len2 - 2)\<close> over the stripped lengths,
  where \<open>I\<close>, the counter the second loop maintains, is the size of the intersection of the two
  multisets of bigrams (each occurrence in the first string is consumed at most once). The
  score of \<open>"hello"\<close> and \<open>"helo"\<close> lies strictly between 0 and 1.
\<close>

theorem dice_coefficient:
  "compareTwoStringsUsingDiceCoefficient a b =
     (if stripSpaces a = stripSpaces b then 1
      else if length (stripSpaces a) < 2 \<or> length (stripSpaces b) < 2 then 0
      else (2 * of_nat (size (mset (bigrams (stripSpaces a)) \<inter># mset (bigrams (stripSpaces b)))))
             / of_nat (length (stripSpaces a) + length (stripSpaces b) - 2))
   \<and> 0 < compareTwoStringsUsingDiceCoefficient ''hello'' ''helo''
   \<and> compareTwoStringsUsingDiceCoefficient ''hello'' ''helo'' < 1"
proof (intro conjI)
  show "compareTwoStringsUsingDiceCoefficient a b =
     (if stripSpaces a = stripSpaces b then 1
      else if length (stripSpaces a) < 2 \<or> length (stripSpaces b) < 2 then 0
      else (2 * of_nat (size (mset (bigrams (stripSpaces a)) \<inter># mset (bigrams (stripSpaces b)))))
             / of_nat (length (stripSpaces a) + length (stripSpaces b) - 2))"
    by (simp add: compareTwoStringsUsingDiceCoefficient_def Let_def intersectionSizeOf_mset)
  have v: "compareTwoStringsUsingDiceCoefficient ''hello'' ''helo'' = 6 / 7"
    by code_simp
  show "0 < compareTwoStringsUsingDiceCoefficient ''hello'' ''helo''"
    by (simp add: v)
  show "compareTwoStringsUsingDiceCoefficient ''hello'' ''helo'' < 1"
    by (simp add: v)
qed

theorem dice_coefficient_witness:
  "compareTwoStringsUsingDiceCoefficient ''he llo'' ''helo'' = 6 / 7
   \<and> compareTwoStringsUsingDiceCoefficient ''a b'' '' ab'' = 1
   \<and> compareTwoStringsUsingDiceCoefficient ''hello'' [] = 0"
proof -
  have s1: "stripSpaces ''he llo'' = ''hello''" and s2: "stripSpaces ''helo'' = ''helo''"
    and s3: "stripSpaces ''a b'' = ''ab''" and s4: "stripSpaces '' ab'' = ''ab''"
    and s5: "stripSpaces [] = []" and s6: "stripSpaces ''hello'' = ''hello''"
    by (simp_all add: stripSpaces_def isSpace_def)
  have m: "size (mset (bigrams ''hello'') \<inter># mset (bigrams ''helo'')) = 3"
    by (simp add: inter_add_left1 inter_add_left2 inter_add_right1 inter_add_right2)
  have "compareTwoStringsUsingDiceCoefficient ''he llo'' ''helo'' =
     (if ''hello'' = ''helo'' then 1
      else if length ''hello'' < 2 \<or> length ''helo'' < 2 then 0
      else (2 * of_nat 3) / of_nat (length ''hello'' + length ''helo'' - 2))"
    using dice_coefficient [of "''he llo''" "''helo''"] by (simp only: s1 s2 m)
  then have "compareTwoStringsUsingDiceCoefficient ''he llo'' ''helo'' = 6 / 7"
    by simp
  moreover have "compareTwoStringsUsingDiceCoefficient ''a b'' '' ab'' = 1"
    using dice_coefficient [of "''a b''" "'' ab''"] by (simp add: s3 s4)
  moreover have "compareTwoStringsUsingDiceCoefficient ''hello'' [] = 0"
    using dice_coefficient [of "''hello''" "[]"] by (simp add: s5 s6)
  ultimately show ?thesis by simp
qed

section \<open>Properties of the Transcript Combiner\<close>

lemma trim_Cons_space: "isSpace c \<Longrightarrow> trim (c # s) = trim s"
  by (simp add: trim_def)

lemma trim_snoc_space:
  assumes "isSpace c"
  shows "trim (s @ [c]) = trim s"
proof (cases "\<forall>x \<in> set s. isSpace x")
  case True
  then have "dropWhile isSpace s = []" and "dropWhile isSpace (s @ [c]) = []"
    using assms by simp_all
  then show ?thesis by (simp only: trim_def)
next
  case False
  then obtain x where "x \<in> set s" and "\<not> isSpace x" by blast
  then have "dropWhile isSpace (s @ [c]) = dropWhile isSpace s @ [c]"
    by (rule dropWhile_append1)
  then show ?thesis using assms by (simp add: trim_def)
qed

lemma splitSpaces_append:
  "x \<noteq> [] \<Longrightarrow> \<not> isSpace (last x) \<Longrightarrow> isSpace c \<Longrightarrow> y \<noteq> [] \<Longrightarrow> \<not> isSpace (hd y) \<Longrightarrow>
     splitSpaces (x @ c # y) = splitSpaces x @ splitSpaces y"
proof (induction x rule: splitSpaces.induct)
  case (1 s)
  have dy: "dropWhile isSpace y = y" using 1(5,6) by (simp add: dropWhile_eq_self_iff)
  show ?case
  proof (cases "dropWhile (\<lambda>c. \<not> isSpace c) s")
    case Nil
    then have tok: "\<forall>c \<in> set s. \<not> isSpace c" by simp
    have "splitSpaces s = [s]" using tok by (rule splitSpaces_token)
    moreover have "splitSpaces (s @ c # y) = s # splitSpaces (dropWhile isSpace y)"
      using tok 1(4) by (rule splitSpaces_token_space)
    ultimately show ?thesis by (simp add: dy)
  next
    case (Cons r rs)
    let ?t = "takeWhile (\<lambda>c. \<not> isSpace c) s"
    let ?rest = "dropWhile isSpace rs"
    have s: "s = ?t @ r # rs" using Cons takeWhile_dropWhile_id [of "\<lambda>c. \<not> isSpace c" s] by simp
    have r: "isSpace r" using Cons hd_dropWhile [of "\<lambda>c. \<not> isSpace c" s] by simp
    have t: "\<forall>c \<in> set ?t. \<not> isSpace c" by (auto dest: set_takeWhileD)
    have "last s = last (r # rs)" by (subst s) simp
    then have lr: "\<not> isSpace (last (r # rs))" using 1(3) by simp
    have ne: "?rest \<noteq> []"
    proof
      assume "?rest = []"
      then have "\<forall>c \<in> set rs. isSpace c" by simp
      then have "isSpace (last (r # rs))" using r by (cases rs) auto
      then show False using lr by simp
    qed
    then have rsne: "rs \<noteq> []" by auto
    have "rs = takeWhile isSpace rs @ ?rest" by simp
    then have "last rs = last ?rest" using ne by (metis last_appendR)
    then have la: "\<not> isSpace (last ?rest)" using lr rsne by simp
    have ih: "splitSpaces (?rest @ c # y) = splitSpaces ?rest @ splitSpaces y"
      using 1(1) [OF Cons ne la 1(4) 1(5) 1(6)] .
    have a: "splitSpaces s = ?t # splitSpaces ?rest"
      by (subst splitSpaces.simps) (simp add: Cons)
    obtain x where "x \<in> set rs" and "\<not> isSpace x" using ne by auto
    then have d: "dropWhile isSpace (rs @ c # y) = ?rest @ c # y"
      by (rule dropWhile_append1)
    have e: "s @ c # y = ?t @ r # (rs @ c # y)" by (subst s) simp
    have "splitSpaces (s @ c # y) = splitSpaces (?t @ r # (rs @ c # y))"
      by (simp only: e)
    also have "\<dots> = ?t # splitSpaces (dropWhile isSpace (rs @ c # y))"
      by (rule splitSpaces_token_space [OF t r])
    finally show ?thesis by (simp only: d ih a append_Cons)
  qed
qed

lemma tokensOf_trim: "tokensOf (trim s) = tokensOf s"
  by (simp add: tokensOf_def trim_trim)

lemma tokensOf_Nil: "tokensOf [] = []"
  by (simp add: tokensOf_def trim_def)

lemma tokensOf_join2:
  "tokensOf (trim (joinSpace [trim a, trim b])) = tokensOf a @ tokensOf b"
proof -
  have sp: "isSpace CHR '' ''" by (simp add: isSpace_def)
  have j: "joinSpace [trim a, trim b] = trim a @ CHR '' '' # trim b" by simp
  show ?thesis
  proof (cases "trim a = []")
    case True
    then have "trim (joinSpace [trim a, trim b]) = trim b"
      by (simp add: trim_Cons_space [OF sp] trim_trim)
    moreover have "tokensOf a = []" using True by (simp add: tokensOf_def)
    ultimately show ?thesis by (simp add: tokensOf_trim)
  next
    case a: False
    show ?thesis
    proof (cases "trim b = []")
      case True
      then have "trim (joinSpace [trim a, trim b]) = trim a"
        by (simp add: trim_snoc_space [OF sp] trim_trim)
      moreover have "tokensOf b = []" using True by (simp add: tokensOf_def)
      ultimately show ?thesis by (simp add: tokensOf_trim)
    next
      case b: False
      let ?j = "trim a @ CHR '' '' # trim b"
      have "hd ?j = hd (trim a)" and "last ?j = last (trim b)" using a b by simp_all
      then have "trim ?j = ?j"
        using trim_hd [OF a] trim_last [OF b] by (intro trim_tight) simp
      then have "tokensOf ?j = splitSpaces ?j" using a by (simp add: tokensOf_def)
      also have "\<dots> = splitSpaces (trim a) @ splitSpaces (trim b)"
        using a trim_last [OF a] sp b trim_hd [OF b] by (rule splitSpaces_append)
      also have "\<dots> = tokensOf a @ tokensOf b" using a b by (simp add: tokensOf_def)
      finally show ?thesis by (simp add: tokensOf_trim)
    qed
  qed
qed

lemma tokensOf_concatTranscripts2:
  "tokensOf (concatTranscripts [a, b]) = filterWords None (tokensOf a @ tokensOf b)"
proof -
  have "tokensOf (concatTranscripts [a, b])
      = filterWords None (tokensOf (trim (joinSpace [trim a, trim b])))"
    unfolding concatTranscripts_def by (simp only: tokensOf_removeDuplicateWords list.map)
  then show ?thesis by (simp only: tokensOf_join2)
qed





section \<open>Properties of the transcript state machine\<close>
lemma updateTranscript_flag:
  "previousResultWasFinalOnly (fst (updateTranscript ev s)) = singleFinalOnly ev"
  by (simp add: updateTranscript_def singleFinalOnly_def Let_def updateFinalTranscript_def)

lemma updateTranscript_effects:
  "snd (updateTranscript ev s) =
     (if previousResultWasFinalOnly s \<and> singleFinalOnly ev then []
      else [Notify (TranscriptChange (interimTranscript (fst (updateTranscript ev s)))
                                     (finalTranscriptState (fst (updateTranscript ev s))))])"
  by (simp add: updateTranscript_def singleFinalOnly_def Let_def updateFinalTranscript_def
      emitTranscriptChange_def)

lemma updateTranscript_interim:
  "interimTranscript (fst (updateTranscript ev s)) = fst (parseResultsToTranscript (results ev) (resultIndex ev))"
  by (simp add: updateTranscript_def Let_def updateFinalTranscript_def)

lemma updateTranscript_final:
  "finalTranscriptState (fst (updateTranscript ev s)) =
     (if snd (parseResultsToTranscript (results ev) (resultIndex ev)) \<noteq> []
      then concatTranscripts [finalTranscriptState s, snd (parseResultsToTranscript (results ev) (resultIndex ev))]
      else finalTranscriptState s)"
  by (simp add: updateTranscript_def Let_def updateFinalTranscript_def)




text \<open>
  The final transcript the manager holds is always a fixed point of the normaliser: it is
  empty at construction, \<open>startListening\<close> leaves it or empties it, stopping and aborting
  leave it, and a result event replaces it by a value of \<open>concatTranscripts\<close>.
\<close>

lemma newManager_normalized:
  "removeDuplicateWords (finalTranscriptState (newManager r)) = finalTranscriptState (newManager r)"
  by (simp add: newManager_def removeDuplicateWords_def)

lemma stopListening_final:
  "finalTranscriptState (fst (stopListening s)) = finalTranscriptState s"
  by (simp add: stopListening_def emitListeningChange_def disconnect_def stop_def split: prod.splits)

lemma abortListening_final:
  "finalTranscriptState (fst (abortListening s)) = finalTranscriptState s"
  by (simp add: abortListening_def emitListeningChange_def disconnect_def abort_def split: prod.splits)

lemma startListening_final:
  "finalTranscriptState (fst (startListening opts outcome s)) = finalTranscriptState s
   \<or> finalTranscriptState (fst (startListening opts outcome s)) = []"
  by (cases outcome)
     (auto simp: startListening_def Let_def start_def resetTranscriptState_def
        emitClearTranscript_def emitListeningChange_def emitMicrophoneAvailabilityChange_def
        stopListening_def disconnect_def stop_def
        split: prod.splits option.splits if_splits)

lemma startListening_normalized:
  assumes "removeDuplicateWords (finalTranscriptState s) = finalTranscriptState s"
  shows "removeDuplicateWords (finalTranscriptState (fst (startListening opts outcome s)))
           = finalTranscriptState (fst (startListening opts outcome s))"
  using startListening_final [of opts outcome s] assms
  by (auto simp: removeDuplicateWords_def)


text \<open>
  Claim C3. The transcript-changed notification of a batch is suppressed exactly when the batch
  before it was a single final alternative with empty interim text (recorded in
  \<open>previousResultWasFinalOnly\<close>) and the batch itself is one again; otherwise exactly one
  notification is emitted. In particular two consecutive such batches with identical content,
  the first arriving when the flag is unset (as in a fresh manager), emit one notification
  between them.
\<close>

theorem duplicate_batch_suppression:
  "(snd (updateTranscript ev s) = []) = (previousResultWasFinalOnly s \<and> singleFinalOnly ev)
   \<and> previousResultWasFinalOnly (fst (updateTranscript ev s)) = singleFinalOnly ev
   \<and> (snd (updateTranscript ev2 (fst (updateTranscript ev1 s))) = [])
        = (singleFinalOnly ev1 \<and> singleFinalOnly ev2)
   \<and> (\<not> previousResultWasFinalOnly s \<and> singleFinalOnly ev \<longrightarrow>
        snd (updateTranscript ev s) @ snd (updateTranscript ev (fst (updateTranscript ev s)))
          = [Notify (TranscriptChange [] (finalTranscriptState (fst (updateTranscript ev s))))])"
proof (intro conjI impI)
  show "(snd (updateTranscript ev s) = []) = (previousResultWasFinalOnly s \<and> singleFinalOnly ev)"
    by (simp add: updateTranscript_effects)
  show "previousResultWasFinalOnly (fst (updateTranscript ev s)) = singleFinalOnly ev"
    by (rule updateTranscript_flag)
  show "(snd (updateTranscript ev2 (fst (updateTranscript ev1 s))) = [])
        = (singleFinalOnly ev1 \<and> singleFinalOnly ev2)"
    by (simp add: updateTranscript_effects [of ev2] updateTranscript_flag)
  assume a: "\<not> previousResultWasFinalOnly s \<and> singleFinalOnly ev"
  have i: "interimTranscript (fst (updateTranscript ev s)) = []"
    using a by (simp add: updateTranscript_interim singleFinalOnly_def)
  have "snd (updateTranscript ev (fst (updateTranscript ev s))) = []"
    using a by (simp add: updateTranscript_effects [of ev "fst (updateTranscript ev s)"] updateTranscript_flag)
  moreover have "snd (updateTranscript ev s)
      = [Notify (TranscriptChange [] (finalTranscriptState (fst (updateTranscript ev s))))]"
    using a i by (simp add: updateTranscript_effects [of ev s])
  ultimately show "snd (updateTranscript ev s) @ snd (updateTranscript ev (fst (updateTranscript ev s)))
          = [Notify (TranscriptChange [] (finalTranscriptState (fst (updateTranscript ev s))))]"
    by simp
qed

theorem duplicate_batch_suppression_witness:
  "snd (updateTranscript \<lparr>results = [\<lparr>isFinal = True, transcript = ''hello''\<rparr>], resultIndex = 0\<rparr>
          (newManager None))
   @ snd (updateTranscript \<lparr>results = [\<lparr>isFinal = True, transcript = ''hello''\<rparr>], resultIndex = 0\<rparr>
          (fst (updateTranscript \<lparr>results = [\<lparr>isFinal = True, transcript = ''hello''\<rparr>], resultIndex = 0\<rparr>
                  (newManager None))))
   = [Notify (TranscriptChange [] ''hello'')]"
proof -
  let ?ev = "\<lparr>results = [\<lparr>isFinal = True, transcript = ''hello''\<rparr>], resultIndex = 0\<rparr>"
  have p: "\<not> previousResultWasFinalOnly (newManager None)"
    by (simp add: newManager_def)
  have q: "singleFinalOnly ?ev"
    by code_simp
  have f: "finalTranscriptState (fst (updateTranscript ?ev (newManager None))) = ''hello''"
    by code_simp
  show ?thesis
    using duplicate_batch_suppression [of ?ev "newManager None"] p q by (simp only: f simp_thms)
qed




text \<open>
  Claim C10. The suppression looks at the shape of the batches only and comes after the state
  update: a batch whose notification is suppressed still has its non-empty final text appended
  to the final transcript, so the transcript grows while no notification is emitted.
\<close>

theorem suppressed_batch_still_appends:
  assumes "previousResultWasFinalOnly s" and "singleFinalOnly ev"
    and "snd (parseResultsToTranscript (results ev) (resultIndex ev)) \<noteq> []"
  shows "snd (updateTranscript ev s) = []
         \<and> finalTranscriptState (fst (updateTranscript ev s))
             = concatTranscripts [finalTranscriptState s,
                                  snd (parseResultsToTranscript (results ev) (resultIndex ev))]
         \<and> tokensOf (finalTranscriptState (fst (updateTranscript ev s)))
             = filterWords None
                 (tokensOf (finalTranscriptState s)
                  @ tokensOf (snd (parseResultsToTranscript (results ev) (resultIndex ev))))"
  using assms
  by (simp add: updateTranscript_effects updateTranscript_final tokensOf_concatTranscripts2)

theorem suppressed_batch_still_appends_witness:
  "snd (updateTranscript \<lparr>results = [\<lparr>isFinal = True, transcript = ''world''\<rparr>], resultIndex = 0\<rparr>
         (fst (updateTranscript \<lparr>results = [\<lparr>isFinal = True, transcript = ''hello''\<rparr>], resultIndex = 0\<rparr>
                 (newManager None)))) = []
   \<and> finalTranscriptState
        (fst (updateTranscript \<lparr>results = [\<lparr>isFinal = True, transcript = ''world''\<rparr>], resultIndex = 0\<rparr>
           (fst (updateTranscript \<lparr>results = [\<lparr>isFinal = True, transcript = ''hello''\<rparr>], resultIndex = 0\<rparr>
                   (newManager None))))) = ''hello world''"
proof -
  let ?e1 = "\<lparr>results = [\<lparr>isFinal = True, transcript = ''hello''\<rparr>], resultIndex = 0\<rparr>"
  let ?e2 = "\<lparr>results = [\<lparr>isFinal = True, transcript = ''world''\<rparr>], resultIndex = 0\<rparr>"
  let ?s = "fst (updateTranscript ?e1 (newManager None))"
  have a: "previousResultWasFinalOnly ?s" by code_simp
  have b: "singleFinalOnly ?e2" by code_simp
  have c: "snd (parseResultsToTranscript (results ?e2) (resultIndex ?e2)) \<noteq> []" by code_simp
  have d: "concatTranscripts [finalTranscriptState ?s,
             snd (parseResultsToTranscript (results ?e2) (resultIndex ?e2))] = ''hello world''"
    by code_simp
  note inst = suppressed_batch_still_appends [OF a b c]
  have "snd (updateTranscript ?e2 ?s) = []" using inst by (rule conjunct1)
  moreover have "finalTranscriptState (fst (updateTranscript ?e2 ?s)) = ''hello world''"
    using inst d by (elim conjE) (rule trans)
  ultimately show ?thesis by (rule conjI)
qed


section \<open>Properties of the session orchestrator\<close>

lemma stopListening_listening: "\<not> listening (fst (stopListening s))"
  by (simp add: stopListening_def emitListeningChange_def split: prod.splits)

text \<open>
  Claim C2 (what the code does). \<open>stopListening\<close> tests \<open>this.listening\<close> after
  \<open>disconnect('STOP')\<close> and \<open>emitListeningChange(false)\<close> have both set it to false, so the
  branch that waits for the end event or the 100 ms timer is never taken: the call resolves at
  once in every state, also when the manager was listening, and \<open>onStopListening\<close> is never
  replaced.
\<close>

theorem stopListening_never_waits:
  "snd (snd (stopListening s)) = ResolvedAtOnce
   \<and> onStopListening (fst (stopListening s)) = onStopListening s
   \<and> \<not> listening (fst (stopListening s))
   \<and> (recognition s \<noteq> None \<and> listening s \<longrightarrow>
        fst (snd (stopListening s)) = [RecognizerStop, Notify (ListeningChange False)])"
  by (auto simp: stopListening_def emitListeningChange_def disconnect_def stop_def split: prod.splits)

theorem stopListening_never_waits_witness:
  "stopListening ((newManager (Some \<lparr>continuous_flag = False, lang = ''en-US''\<rparr>))\<lparr>listening := True\<rparr>)
     = ((newManager (Some \<lparr>continuous_flag = False, lang = ''en-US''\<rparr>))\<lparr>pauseAfterDisconnect := True\<rparr>,
        [RecognizerStop, Notify (ListeningChange False)], ResolvedAtOnce)"
proof -
  let ?s = "(newManager (Some \<lparr>continuous_flag = False, lang = ''en-US''\<rparr>))\<lparr>listening := True\<rparr>"
  have a: "recognition ?s \<noteq> None \<and> listening ?s" by (simp add: newManager_def)
  have st: "fst (stopListening ?s)
     = (newManager (Some \<lparr>continuous_flag = False, lang = ''en-US''\<rparr>))\<lparr>pauseAfterDisconnect := True\<rparr>"
    by (simp add: stopListening_def emitListeningChange_def disconnect_def stop_def newManager_def)
  show ?thesis
    using stopListening_never_waits [of ?s] a st by (simp add: prod_eq_iff)
qed


lemma startListening_attempt:
  assumes "recognition s \<noteq> None" and "\<not> listening s"
  shows "RecognizerStart \<in> set (snd (startListening opts outcome s))"
  using assms
  by (cases outcome)
     (auto simp: startListening_def Let_def start_def resetTranscriptState_def
        emitClearTranscript_def emitListeningChange_def emitMicrophoneAvailabilityChange_def
        split: prod.splits option.splits)

lemma startListening_Started:
  assumes "recognition s \<noteq> None" and "\<not> listening s"
  shows "listening (fst (startListening opts Started s))"
  using assms
  by (auto simp: startListening_def Let_def start_def resetTranscriptState_def
        emitClearTranscript_def emitListeningChange_def emitMicrophoneAvailabilityChange_def
        split: prod.splits option.splits)

lemma startListening_DOMException:
  assumes "RecognizerStart \<in> set (snd (startListening opts ThrowsDOMException s))"
  shows "\<not> listening (fst (startListening opts ThrowsDOMException s))"
    and "recognition (fst (startListening opts ThrowsDOMException s)) \<noteq> None"
    and "isMicrophoneAvailable (fst (startListening opts ThrowsDOMException s)) = isMicrophoneAvailable s"
    and "set (snd (startListening opts ThrowsDOMException s))
           \<subseteq> {RecognizerStop, Notify (ListeningChange False), Notify ClearTranscript, RecognizerStart}"
    and "last (snd (startListening opts ThrowsDOMException s)) = RecognizerStart"
    and "\<not> continuous_flag (the (recognition (fst (startListening opts ThrowsDOMException s)))) \<longrightarrow>
           finalTranscriptState (fst (startListening opts ThrowsDOMException s)) = []
           \<and> interimTranscript (fst (startListening opts ThrowsDOMException s)) = []
           \<and> Notify ClearTranscript \<in> set (snd (startListening opts ThrowsDOMException s))"
  using assms
  by (auto simp: startListening_def Let_def start_def resetTranscriptState_def
        emitClearTranscript_def emitListeningChange_def emitMicrophoneAvailabilityChange_def
        stopListening_def disconnect_def stop_def
        split: prod.splits option.splits if_splits)

lemma startListening_Other:
  assumes "RecognizerStart \<in> set (snd (startListening opts ThrowsDOMException s))"
  shows "fst (startListening opts ThrowsOther s)
           = (fst (startListening opts ThrowsDOMException s))\<lparr>isMicrophoneAvailable := False\<rparr>"
    and "snd (startListening opts ThrowsOther s)
           = snd (startListening opts ThrowsDOMException s) @ [Notify (MicrophoneAvailabilityChange False)]"
  using assms
  by (auto simp: startListening_def Let_def start_def resetTranscriptState_def
        emitClearTranscript_def emitListeningChange_def emitMicrophoneAvailabilityChange_def
        stopListening_def disconnect_def stop_def
        split: prod.splits option.splits if_splits)


text \<open>
  Claim C9, as amended. When a call of \<open>startListening\<close> reaches the start primitive and the
  primitive throws a \<open>DOMException\<close>, the exception is swallowed: nothing happens after the
  failed call, so no listening=true and no microphone notification is emitted, the manager is
  not listening and the microphone availability is as before; what preceded the attempt (the
  stop on reconfiguration, the clearing of the transcript in non-continuous mode and its
  notification) stands. Any other exception marks the microphone unavailable and notifies the
  subscribers, and changes nothing else. Neither disables a later attempt: the next
  \<open>startListening\<close> calls the start primitive again, and listens if it succeeds.
\<close>

theorem start_failure_handling:
  assumes "RecognizerStart \<in> set (snd (startListening opts ThrowsDOMException s))"
  shows "\<not> listening (fst (startListening opts ThrowsDOMException s))
         \<and> isMicrophoneAvailable (fst (startListening opts ThrowsDOMException s)) = isMicrophoneAvailable s
         \<and> set (snd (startListening opts ThrowsDOMException s))
              \<subseteq> {RecognizerStop, Notify (ListeningChange False), Notify ClearTranscript, RecognizerStart}
         \<and> last (snd (startListening opts ThrowsDOMException s)) = RecognizerStart
         \<and> fst (startListening opts ThrowsOther s)
              = (fst (startListening opts ThrowsDOMException s))\<lparr>isMicrophoneAvailable := False\<rparr>
         \<and> snd (startListening opts ThrowsOther s)
              = snd (startListening opts ThrowsDOMException s) @ [Notify (MicrophoneAvailabilityChange False)]
         \<and> RecognizerStart \<in> set (snd (startListening opts' outcome' (fst (startListening opts ThrowsOther s))))
         \<and> listening (fst (startListening opts' Started (fst (startListening opts ThrowsOther s))))
         \<and> RecognizerStart \<in> set (snd (startListening opts' outcome' (fst (startListening opts ThrowsDOMException s))))
         \<and> listening (fst (startListening opts' Started (fst (startListening opts ThrowsDOMException s))))"
proof -
  note d = startListening_DOMException [OF assms]
  note o = startListening_Other [OF assms]
  have r: "recognition (fst (startListening opts ThrowsOther s)) \<noteq> None"
    using d(2) by (simp add: o(1))
  have l: "\<not> listening (fst (startListening opts ThrowsOther s))"
    using d(1) by (simp add: o(1))
  show ?thesis
    using d(1) d(3) d(4) d(5) o(1) o(2)
      startListening_attempt [OF r l, of opts' outcome'] startListening_Started [OF r l, of opts']
      startListening_attempt [OF d(2) d(1), of opts' outcome']
      startListening_Started [OF d(2) d(1), of opts']
    by blast
qed

theorem start_failure_handling_witness:
  "startListening \<lparr>continuous_opt = None, language = None\<rparr> ThrowsDOMException
     ((newManager (Some \<lparr>continuous_flag = True, lang = ''en-US''\<rparr>))\<lparr>listening := True\<rparr>)
   = ((newManager (Some \<lparr>continuous_flag = False, lang = ''en-US''\<rparr>))\<lparr>pauseAfterDisconnect := True\<rparr>,
      [RecognizerStop, Notify (ListeningChange False), Notify ClearTranscript, RecognizerStart])
   \<and> startListening \<lparr>continuous_opt = None, language = None\<rparr> ThrowsOther
     ((newManager (Some \<lparr>continuous_flag = True, lang = ''en-US''\<rparr>))\<lparr>listening := True\<rparr>)
   = ((newManager (Some \<lparr>continuous_flag = False, lang = ''en-US''\<rparr>))
        \<lparr>pauseAfterDisconnect := True, isMicrophoneAvailable := False\<rparr>,
      [RecognizerStop, Notify (ListeningChange False), Notify ClearTranscript, RecognizerStart,
       Notify (MicrophoneAvailabilityChange False)])"
proof -
  let ?o = "\<lparr>continuous_opt = None, language = None\<rparr>"
  let ?s = "(newManager (Some \<lparr>continuous_flag = True, lang = ''en-US''\<rparr>))\<lparr>listening := True\<rparr>"
  have d: "startListening ?o ThrowsDOMException ?s
     = ((newManager (Some \<lparr>continuous_flag = False, lang = ''en-US''\<rparr>))\<lparr>pauseAfterDisconnect := True\<rparr>,
        [RecognizerStop, Notify (ListeningChange False), Notify ClearTranscript, RecognizerStart])"
    by (simp add: startListening_def Let_def start_def resetTranscriptState_def
        emitClearTranscript_def emitListeningChange_def stopListening_def disconnect_def stop_def
        newManager_def)
  have a: "RecognizerStart \<in> set (snd (startListening ?o ThrowsDOMException ?s))"
    by (simp add: d)
  note inst = start_failure_handling [OF a]
  have "fst (startListening ?o ThrowsOther ?s)
          = (fst (startListening ?o ThrowsDOMException ?s))\<lparr>isMicrophoneAvailable := False\<rparr>"
    and "snd (startListening ?o ThrowsOther ?s)
          = snd (startListening ?o ThrowsDOMException ?s) @ [Notify (MicrophoneAvailabilityChange False)]"
    using inst by blast+
  then have "startListening ?o ThrowsOther ?s
     = ((newManager (Some \<lparr>continuous_flag = False, lang = ''en-US''\<rparr>))
          \<lparr>pauseAfterDisconnect := True, isMicrophoneAvailable := False\<rparr>,
        [RecognizerStop, Notify (ListeningChange False), Notify ClearTranscript, RecognizerStart,
         Notify (MicrophoneAvailabilityChange False)])"
    by (simp add: d prod_eq_iff)
  then show ?thesis using d by simp
qed

text \<open>
  Claim C9 as stated fails twice. A \<open>DOMException\<close> from the start primitive does not leave
  the state alone: in non-continuous mode the transcript has been cleared and the clear
  notification sent before the attempt. And after another failure the next call starts the
  recognizer all the same.
\<close>

theorem start_failure_counterexample:
  "startListening \<lparr>continuous_opt = None, language = None\<rparr> ThrowsDOMException
     ((newManager (Some \<lparr>continuous_flag = False, lang = ''en-US''\<rparr>))\<lparr>finalTranscriptState := ''hello''\<rparr>)
   = (newManager (Some \<lparr>continuous_flag = False, lang = ''en-US''\<rparr>),
      [Notify ClearTranscript, RecognizerStart])
   \<and> newManager (Some \<lparr>continuous_flag = False, lang = ''en-US''\<rparr>)
       \<noteq> (newManager (Some \<lparr>continuous_flag = False, lang = ''en-US''\<rparr>))\<lparr>finalTranscriptState := ''hello''\<rparr>
   \<and> startListening \<lparr>continuous_opt = None, language = None\<rparr> Started
       (fst (startListening \<lparr>continuous_opt = None, language = None\<rparr> ThrowsOther
          (newManager (Some \<lparr>continuous_flag = False, lang = ''en-US''\<rparr>))))
     = ((newManager (Some \<lparr>continuous_flag = False, lang = ''en-US''\<rparr>))
          \<lparr>listening := True, isMicrophoneAvailable := False\<rparr>,
        [Notify ClearTranscript, RecognizerStart, Notify (ListeningChange True)])"
  by (simp add: startListening_def Let_def start_def resetTranscriptState_def
        emitClearTranscript_def emitListeningChange_def emitMicrophoneAvailabilityChange_def
        newManager_def)

section \<open>Properties of the Command Matching Engine\<close>

lemma matchCommandsFrom_append:
  "matchCommandsFrom e it fi n (xs @ ys) =
     (case matchCommandsFrom e it fi n xs of
        (l, Some x) \<Rightarrow> (l, Some x)
      | (l, None) \<Rightarrow>
          (let (l', t) = matchCommandsFrom e it fi (n + length xs) ys in (l @ l', t)))"
proof (induction xs arbitrary: n)
  case Nil
  then show ?case by simp
next
  case (Cons c cs)
  show ?case
    by (simp add: Cons.IH [of "Suc n"] split: prod.splits option.splits)
qed

lemma matchCommandsFrom_throw:
  assumes "snd (matchCommandsFrom e it fi n pre) = None"
    and "snd (evalCommand e it fi (n + length pre) c) = Some x"
  shows "matchCommandsFrom e it fi n (pre @ c # post)
           = (fst (matchCommandsFrom e it fi n pre) @ fst (evalCommand e it fi (n + length pre) c), Some x)"
proof -
  obtain l where p: "matchCommandsFrom e it fi n pre = (l, None)"
    using assms(1) by (cases "matchCommandsFrom e it fi n pre") simp
  obtain l' where c: "evalCommand e it fi (n + length pre) c = (l', Some x)"
    using assms(2) by (cases "evalCommand e it fi (n + length pre) c") simp
  show ?thesis
    by (simp add: matchCommandsFrom_append p c)
qed

lemma matchCommandsFrom_complete:
  "snd (matchCommandsFrom e it fi n cs) = None \<Longrightarrow>
     fst (matchCommandsFrom e it fi n cs)
       = concat (map (\<lambda>(i, c). fst (evalCommand e it fi i c)) (enumerate n cs))"
proof (induction cs arbitrary: n)
  case Nil
  then show ?case by simp
next
  case (Cons c cs)
  show ?case
    using Cons.prems Cons.IH [of "Suc n"]
    by (auto split: prod.splits option.splits)
qed

lemma invokeAll_returns:
  "\<forall>a. cb a = Returns \<Longrightarrow> snd (invokeAll i cb as) = None"
  by (induction as) (auto split: prod.splits)

lemma matchCommand_single_no_throw:
  "\<forall>src inp. e src inp \<noteq> RxSyntaxError \<Longrightarrow> \<exists>r. matchCommand e [cmd] t False th = Inr r"
  by (cases "e (commandToRegExpSource cmd) t") simp_all

lemma exactLoop_returns:
  assumes "\<forall>a. cb a = Returns" and "\<forall>src inp. e src inp \<noteq> RxSyntaxError"
  shows "snd (exactLoop e i cb t cmds) = None"
proof (induction cmds)
  case Nil
  then show ?case by simp
next
  case (Cons cmd cmds)
  obtain r where r: "matchCommand e [cmd] t False (4 / 5) = Inr r"
    using matchCommand_single_no_throw [OF assms(2)] by blast
  show ?case
    using Cons assms(1)
    by (auto simp add: r simp del: matchCommand.simps split: prod.splits option.splits)
qed

lemma evalCommand_returns:
  assumes "\<forall>a. callback c a = Returns" and "\<forall>src inp. e src inp \<noteq> RxSyntaxError"
  shows "snd (evalCommand e it fi i c) = None"
  using invokeAll_returns [OF assms(1)] exactLoop_returns [OF assms]
  by (simp add: evalCommand_def Let_def del: invokeAll.simps exactLoop.simps split: list.splits)

lemma matchCommandsFrom_returns:
  assumes "\<forall>c \<in> set cs. \<forall>a. callback c a = Returns" and "\<forall>src inp. e src inp \<noteq> RxSyntaxError"
  shows "snd (matchCommandsFrom e it fi n cs) = None"
  using assms(1)
proof (induction cs arbitrary: n)
  case Nil
  then show ?case by simp
next
  case (Cons c cs)
  have "snd (evalCommand e it fi n c) = None"
    using Cons.prems assms(2) by (intro evalCommand_returns) simp_all
  moreover have "snd (matchCommandsFrom e it fi (Suc n) cs) = None"
    using Cons by simp
  ultimately show ?case by (auto split: prod.splits option.splits)
qed

text \<open>
  Claim C1, as amended. The matching pass has no handler around the callbacks. As long as no
  callback throws and no pattern fails to compile, every registered command is evaluated
  against the transcript in order and its callback is invoked on each match. The first
  callback that throws ends the pass: the commands before it have been evaluated, the
  exception leaves \<open>matchCommands\<close>, and whatever commands follow are not evaluated at all.
\<close>

theorem callback_failure_ends_matching_pass:
  "(snd (matchCommands engine pre interim final) = None
      \<and> snd (evalCommand engine interim final (length pre) c) = Some x
    \<longrightarrow> matchCommands engine (pre @ c # post) interim final
          = (fst (matchCommands engine pre interim final)
               @ fst (evalCommand engine interim final (length pre) c), Some x))
   \<and> (snd (matchCommands engine cs interim final) = None
    \<longrightarrow> fst (matchCommands engine cs interim final)
          = concat (map (\<lambda>(i, c). fst (evalCommand engine interim final i c)) (enumerate 0 cs)))
   \<and> ((\<forall>c \<in> set cs. \<forall>a. callback c a = Returns) \<and> (\<forall>src inp. engine src inp \<noteq> RxSyntaxError)
    \<longrightarrow> snd (matchCommands engine cs interim final) = None)"
  unfolding matchCommands_def
  using matchCommandsFrom_throw [of engine interim final 0 pre c x post]
    matchCommandsFrom_complete [of engine interim final 0 cs]
    matchCommandsFrom_returns [of cs engine interim final 0]
  by simp


theorem callback_failure_ends_matching_pass_witness:
  "matchCommands regExpMatch
     ([exactCommand ''hi'' alwaysReturns] @ exactCommand ''hello'' alwaysThrows
        # [exactCommand ''hello'' alwaysReturns]) [] ''hello''
     = ([(1, ExactCall [] (PString ''hello''))], Some (CallbackError 1))
   \<and> matchCommands literalEngine
       [exactCommand ''hi'' alwaysReturns, exactCommand ''hello'' alwaysReturns] [] ''hello''
     = ([(1, ExactCall [] (PString ''hello''))], None)"
proof -
  note inst = callback_failure_ends_matching_pass
    [of regExpMatch "[exactCommand ''hi'' alwaysReturns]" "[]" "''hello''"
        "exactCommand ''hello'' alwaysThrows" "CallbackError 1"
        "[exactCommand ''hello'' alwaysReturns]" "[]"]
  have a: "matchCommands regExpMatch [exactCommand ''hi'' alwaysReturns] [] ''hello'' = ([], None)"
    by code_simp
  have b: "evalCommand regExpMatch [] ''hello'' (Suc 0) (exactCommand ''hello'' alwaysThrows)
           = ([(1, ExactCall [] (PString ''hello''))], Some (CallbackError 1))"
    by code_simp
  have first: "matchCommands regExpMatch
     ([exactCommand ''hi'' alwaysReturns] @ exactCommand ''hello'' alwaysThrows
        # [exactCommand ''hello'' alwaysReturns]) [] ''hello''
     = ([(1, ExactCall [] (PString ''hello''))], Some (CallbackError 1))"
    using inst by (simp add: a b)
  let ?cs = "[exactCommand ''hi'' alwaysReturns, exactCommand ''hello'' alwaysReturns]"
  note inst2 = callback_failure_ends_matching_pass
    [of literalEngine "[]" "[]" "''hello''" "exactCommand ''hi'' alwaysReturns" SyntaxError "[]" ?cs]
  have r: "\<forall>c \<in> set ?cs. \<forall>a. callback c a = Returns"
    by (simp add: exactCommand_def alwaysReturns_def)
  have e: "\<forall>src inp. literalEngine src inp \<noteq> RxSyntaxError"
    by (simp add: literalEngine_def)
  have n: "snd (matchCommands literalEngine ?cs [] ''hello'') = None"
    using inst2 r e by blast
  have v: "concat (map (\<lambda>(i, c). fst (evalCommand literalEngine [] ''hello'' i c)) (enumerate 0 ?cs))
             = [(1, ExactCall [] (PString ''hello''))]"
    by code_simp
  have "fst (matchCommands literalEngine ?cs [] ''hello'') = [(1, ExactCall [] (PString ''hello''))]"
    using inst2 n v by simp
  then have "matchCommands literalEngine ?cs [] ''hello'' = ([(1, ExactCall [] (PString ''hello''))], None)"
    using n by (simp add: prod_eq_iff)
  then show ?thesis using first by simp
qed

text \<open>
  Claim C1 as stated fails: of two commands that both match \<open>"hello"\<close>, the first with a
  callback that throws, only the first is invoked, although the second, evaluated on its own,
  matches and calls back.
\<close>

theorem callback_failure_counterexample:
  "matchCommands regExpMatch
     [exactCommand ''hello'' alwaysThrows, exactCommand ''hello'' alwaysReturns] [] ''hello''
     = ([(0, ExactCall [] (PString ''hello''))], Some (CallbackError 0))
   \<and> evalCommand regExpMatch [] ''hello'' 1 (exactCommand ''hello'' alwaysReturns)
     = ([(1, ExactCall [] (PString ''hello''))], None)"
  by code_simp

section \<open>Properties of the Command Pattern Compiler\<close>

text \<open>The five literals, read from their source text.\<close>

lemma regex_literals:
  "parseRegExp ([bslash] @ ''s*'' @ [bslash] @ ''((.*?)'' @ [bslash] @ '')'' @ [bslash] @ ''s*'')
     = Some optionalParam"
  "parseRegExp (''('' @ [bslash] @ ''('' @ [bslash] @ ''?:[^)]+'' @ [bslash] @ ''))'' @ [bslash] @ ''?'')
     = Some optionalRegex"
  "parseRegExp (''('' @ [bslash] @ ''('' @ [bslash] @ ''?)?:'' @ [bslash] @ ''w+'') = Some namedParam"
  "parseRegExp ([bslash] @ ''*'') = Some splatParam"
  "parseRegExp (''[-{}['' @ [bslash] @ '']+?.,'' @ [bslash, bslash] @ ''^$|#]'') = Some escapeRegExp"
  by code_simp+




lemma stepChar_simps [simp]:
  "stepChar ok (p, [], caps) = []"
  "stepChar ok (p, c # cs, caps) = (if ok c then [(Suc p, cs, caps)] else [])"
  by (simp_all add: stepChar_def)

lemma matches_Bol_later:
  "0 < pos \<Longrightarrow> matches ic (Seq (Bol # rs)) (pos, rest, caps) = []"
  by simp







lemma charEq_refl [simp]: "charEq ic c c"
  by (simp add: charEq_def)






text \<open>
  Matching with the flag \<open>i\<close> does not see the case of the input: two inputs with the same
  lower-case form are matched alike by every expression.
\<close>

lemma of_char_lt_256: "(of_char c :: nat) < 256"
proof -
  have "(of_char c :: nat) = of_char c mod 256" by (metis of_char_mod_256)
  then show ?thesis by (metis mod_less_divisor zero_less_numeral)
qed

lemma of_char_toLowerChar:
  "(of_char (toLowerChar c) :: nat) =
     (let n = of_char c in
      if (65 \<le> n \<and> n \<le> 90) \<or> (192 \<le> n \<and> n \<le> 222 \<and> n \<noteq> 215) then n + 32 else n)"
  by (auto simp: toLowerChar_def Let_def)

lemma toLowerChar_idem [simp]: "toLowerChar (toLowerChar c) = toLowerChar c"
proof -
  have "(of_char (toLowerChar (toLowerChar c)) :: nat) = of_char (toLowerChar c)"
    by (subst of_char_toLowerChar) (auto simp: of_char_toLowerChar Let_def)
  then show ?thesis by (metis char_of_char)
qed



























end
